theory Spec2Isabelle
  imports Main "HOL-Library.Word"
begin

unbundle bit_operations_syntax

section \<open>Bytes, buffers and the environment\<close>

type_synonym byte = "8 word"
type_synonym bytes = "byte list"

text \<open>
  \<^verbatim>\<open>memcpy(buf + off, src, n)\<close> and \<^verbatim>\<open>memmove\<close> on a byte buffer that
  holds at least \<open>off + length src\<close> bytes: the bytes in front of \<open>off\<close> and behind
  the copied range stay as they are.
\<close>

definition memcpy_at :: "bytes \<Rightarrow> nat \<Rightarrow> bytes \<Rightarrow> bytes" where
  "memcpy_at buf off src = take off buf @ src @ drop (off + length src) buf"

text \<open>
  The first \<open>n\<close> bytes of a local output array (\<^verbatim>\<open>char hash[20]\<close>,
  \<^verbatim>\<open>char encrypt_data[16]\<close>, \<^verbatim>\<open>char hash[21] = {0}\<close>) after a callee wrote
  \<open>xs\<close> to its start.  Bytes the callee did not reach read as 0; MD5 and SHA-1 write 16 and
  20 bytes and the code reads at most 6 of them (\<open>hash_len\<close> of them from the
  zero-initialised \<^verbatim>\<open>hash[21]\<close>), so for the digests the plugin binds the padding is
  never read.
\<close>

definition filled :: "nat \<Rightarrow> bytes \<Rightarrow> bytes" where
  "filled n xs = take n (xs @ replicate n 0)"

text \<open>
  Modelled from the spec: \<^verbatim>\<open>memintcopy_lt\<close> (obfsutil.c is not among the sources)
  stores a \<^verbatim>\<open>uint32_t\<close> in little-endian order, the spec's \<open>pack_id(LE u32)\<close>.
\<close>

definition memintcopy_lt :: "32 word \<Rightarrow> bytes" where
  "memintcopy_lt w = [ucast w, ucast (drop_bit 8 w), ucast (drop_bit 16 w), ucast (drop_bit 24 w)]"

text \<open>A NUL-terminated C string, as the bytes in front of the terminator.\<close>

definition cstr :: "string \<Rightarrow> bytes" where
  "cstr s = map (\<lambda>c. of_nat (of_char c)) s"

text \<open>
  The two sources of randomness, \<^verbatim>\<open>xorshift128plus()\<close> and \<^verbatim>\<open>rand_bytes()\<close>,
  live outside the sources.  They are modelled as an oracle: the sequence of 64-bit results
  and the sequence of bytes they will produce, each with a read position that every call
  advances.
\<close>

record rand_src =
  xs_out :: "nat \<Rightarrow> 64 word"
  xs_pos :: nat
  rb_out :: "nat \<Rightarrow> byte"
  rb_pos :: nat

definition xorshift128plus :: "rand_src \<Rightarrow> 64 word \<times> rand_src" where
  "xorshift128plus r = (xs_out r (xs_pos r), r\<lparr>xs_pos := Suc (xs_pos r)\<rparr>)"

definition rand_bytes :: "nat \<Rightarrow> rand_src \<Rightarrow> bytes \<times> rand_src" where
  "rand_bytes n r = (map (rb_out r) [rb_pos r ..< rb_pos r + n], r\<lparr>rb_pos := rb_pos r + n\<rparr>)"

section \<open>Plugin data of the auth family\<close>

text \<open>\<^verbatim>\<open>static int auth_simple_pack_unit_size = 2000;\<close>\<close>

definition auth_simple_pack_unit_size :: nat where
  "auth_simple_pack_unit_size = 2000"

text \<open>\<^verbatim>\<open>auth_simple_global_data\<close>: the state all tunnels of one plugin share.\<close>

record auth_simple_global_data =
  local_client_id :: bytes
  connection_id :: "32 word"

text \<open>
  \<^verbatim>\<open>auth_simple_local_data\<close>.  \<open>user_key\<close> is \<open>None\<close> for the NULL pointer and
  otherwise holds the \<open>user_key_len\<close> bytes it points to; \<open>recv_buffer\<close> holds the
  \<open>recv_buffer->len\<close> bytes in use.  \<open>hmac\<close> and \<open>hash\<close> are the function pointers
  the constructors bind to MD5 or SHA-1: \<open>hmac l msg auth_key\<close> and \<open>hash l msg\<close> give the
  digest the callee writes to its output array.
\<close>

record auth_simple_local_data =
  has_sent_header :: int
  recv_buffer :: bytes
  recv_id :: "32 word"
  pack_id :: "32 word"
  salt :: bytes
  user_key :: "bytes option"
  uid :: bytes
  hmac :: "bytes \<Rightarrow> bytes \<Rightarrow> bytes"
  hash :: "bytes \<Rightarrow> bytes"
  hash_len :: nat
  last_data_len :: int
  unit_len :: nat

definition user_key_bytes :: "auth_simple_local_data \<Rightarrow> bytes" where
  "user_key_bytes l = (case user_key l of None \<Rightarrow> [] | Some k \<Rightarrow> k)"

definition user_key_len :: "auth_simple_local_data \<Rightarrow> nat" where
  "user_key_len l = length (user_key_bytes l)"

text \<open>
  \<^verbatim>\<open>auth_simple_local_data_init\<close> and the constructors of the two variants (the part
  that sets up \<open>l_data\<close>).  The initialiser leaves \<open>last_data_len\<close> as
  \<^verbatim>\<open>malloc\<close> returned it: \<open>junk\<close> is that value.  The digests are the library
  routines for MD5 and SHA-1, passed in as \<open>hmac_fn\<close> and \<open>hash_fn\<close>.
\<close>

definition auth_simple_local_data_init :: "int \<Rightarrow> auth_simple_local_data" where
  "auth_simple_local_data_init junk =
     \<lparr>has_sent_header = 0, recv_buffer = [], recv_id = 1, pack_id = 1, salt = [],
      user_key = None, uid = [0, 0, 0, 0], hmac = (\<lambda>msg k. []), hash = (\<lambda>msg. []),
      hash_len = 0, last_data_len = junk, unit_len = 2000\<rparr>"

definition auth_aes128_md5_new_obfs ::
  "(bytes \<Rightarrow> bytes \<Rightarrow> bytes) \<Rightarrow> (bytes \<Rightarrow> bytes) \<Rightarrow> int \<Rightarrow> auth_simple_local_data" where
  "auth_aes128_md5_new_obfs hmac_fn hash_fn junk =
     (auth_simple_local_data_init junk)
       \<lparr>hmac := hmac_fn, hash := hash_fn, hash_len := 16, salt := cstr ''auth_aes128_md5''\<rparr>"

definition auth_aes128_sha1_new_obfs ::
  "(bytes \<Rightarrow> bytes \<Rightarrow> bytes) \<Rightarrow> (bytes \<Rightarrow> bytes) \<Rightarrow> int \<Rightarrow> auth_simple_local_data" where
  "auth_aes128_sha1_new_obfs hmac_fn hash_fn junk =
     (auth_simple_local_data_init junk)
       \<lparr>hmac := hmac_fn, hash := hash_fn, hash_len := 20, salt := cstr ''auth_aes128_sha1''\<rparr>"

text \<open>
  \<^verbatim>\<open>struct server_info_t\<close>.  \<open>iv\<close> and \<open>key\<close> hold the \<open>iv_len\<close> and
  \<open>key_len\<close> bytes behind the pointers, \<open>param\<close> is \<open>None\<close> for NULL, and
  \<open>g_data\<close> says which plugin's global state the pointer refers to (the state itself is
  passed to the functions that change it).
\<close>

datatype g_ref = Obfs_global | Protocol_global

record server_info_t =
  host :: bytes
  port :: "16 word"
  head_len :: int
  iv :: bytes
  key :: bytes
  tcp_mss :: nat
  buffer_size :: nat
  param :: "bytes option"
  g_data :: "g_ref option"
  overhead :: "16 word"

section \<open>Packing a data chunk\<close>

text \<open>
  \<^verbatim>\<open>get_rand_len\<close>: no padding for big packets, otherwise a random length whose
  range shrinks as the payload grows.
\<close>

definition get_rand_len ::
  "nat \<Rightarrow> nat \<Rightarrow> auth_simple_local_data \<Rightarrow> server_info_t \<Rightarrow> rand_src \<Rightarrow> nat \<times> rand_src" where
  "get_rand_len datalength fulldatalength l server r =
     (if 1300 < datalength \<or> 1300 < last_data_len l \<or> buffer_size server \<le> fulldatalength
      then (0, r)
      else let (x, r') = xorshift128plus r in
        if 1100 < datalength then (unat (x AND 0x7F), r')
        else if 900 < datalength then (unat (x AND 0xFF), r')
        else if 400 < datalength then (unat (x AND 0x1FF), r')
        else (unat (x AND 0x3FF), r'))"

text \<open>
  The key of a data chunk's two tags.  \<^verbatim>\<open>key_len\<close> is a \<^verbatim>\<open>uint8_t\<close>: the sum
  \<open>user_key_len + 4\<close> is cut to 8 bits, the user key is copied to the start and the packet
  id is stored in the last four of the \<open>key_len\<close> bytes.
\<close>

definition pack_key :: "auth_simple_local_data \<Rightarrow> bytes" where
  "pack_key l =
     (let key_len = (user_key_len l + 4) mod 256
      in take (key_len - 4) (user_key_bytes l) @ memintcopy_lt (pack_id l))"

text \<open>
  \<^verbatim>\<open>auth_aes128_sha1_pack_data\<close>, write by write, on the \<open>out_size\<close> bytes of the
  zeroed output buffer the chunk occupies.  The result is the chunk (its length is the
  function's return value), the local data with \<open>pack_id\<close> advanced, and the oracle.
\<close>

definition auth_aes128_sha1_pack_data ::
  "bytes \<Rightarrow> nat \<Rightarrow> server_info_t \<Rightarrow> auth_simple_local_data \<Rightarrow> rand_src
     \<Rightarrow> bytes \<times> auth_simple_local_data \<times> rand_src" where
  "auth_aes128_sha1_pack_data data fulldatalength server l r =
     (let datalength = length data;
          (g, r1) = get_rand_len datalength fulldatalength l server r;
          rand_len = g + 1;
          out_size = rand_len + datalength + 8;
          o0 = replicate out_size 0;
          o1 = memcpy_at o0 (rand_len + 4) data;
          o2 = o1[0 := of_nat out_size, 1 := of_nat (out_size div 256)];
          k = pack_key l;
          (rnd_data, r2) = rand_bytes rand_len r1;
          o3 = memcpy_at o2 4 rnd_data;
          o4 = memcpy_at o3 2 (filled 2 (hmac l (take 2 o3) k));
          o5 = (if rand_len < 128 then o4[4 := of_nat rand_len]
                else o4[4 := 0xFF, 5 := of_nat rand_len, 6 := of_nat (rand_len div 256)]);
          l' = l\<lparr>pack_id := pack_id l + 1\<rparr>;
          o6 = memcpy_at o5 (out_size - 4) (filled 4 (hmac l (take (out_size - 4) o5) k))
      in (o6, l', r2))"

text \<open>The length field a receiver reads from the first two bytes of a frame.\<close>

definition le16 :: "bytes \<Rightarrow> nat" where
  "le16 b = unat (b ! 1) * 256 + unat (b ! 0)"


text \<open>
  \<^verbatim>\<open>while (len > auth_simple_pack_unit_size)\<close> of the pre-encrypt functions: full
  units are packed while more than one unit is left.  The result is the chunks in the
  order they are appended to the output buffer and the payload not yet packed.
\<close>

function pack_units ::
  "bytes \<Rightarrow> nat \<Rightarrow> server_info_t \<Rightarrow> auth_simple_local_data \<Rightarrow> rand_src
     \<Rightarrow> bytes list \<times> bytes \<times> auth_simple_local_data \<times> rand_src" where
  "pack_units data fulldatalength server l r =
     (if auth_simple_pack_unit_size < length data then
        (case auth_aes128_sha1_pack_data (take auth_simple_pack_unit_size data)
                fulldatalength server l r of
           (c, l1, r1) \<Rightarrow>
             (case pack_units (drop auth_simple_pack_unit_size data) fulldatalength server l1 r1 of
                (cs, rest, l2, r2) \<Rightarrow> (c # cs, rest, l2, r2)))
      else ([], data, l, r))"
  by pat_completeness auto
termination
  by (relation "measure (\<lambda>(data, _). length data)")
     (auto simp: auth_simple_pack_unit_size_def)

declare pack_units.simps [simp del]

section \<open>Packing the first chunk\<close>

text \<open>
  The collaborators of the first chunk that are not among the sources: base64, the
  Shadowsocks key derivation, one block of AES-128-CBC with a zero IV, and the clock
  (\<^verbatim>\<open>(uint32_t)time(NULL)\<close>).  Each gives what the callee writes to its output array.
\<close>

record externs =
  std_base64_encode :: "bytes \<Rightarrow> bytes"
  bytes_to_key_with_size :: "bytes \<Rightarrow> nat \<Rightarrow> bytes"
  ss_aes_128_cbc :: "bytes \<Rightarrow> bytes \<Rightarrow> bytes"
  time_now :: "32 word"

text \<open>
  The C library's \<^verbatim>\<open>strtol(s, NULL, 10)\<close> with a 64-bit \<^verbatim>\<open>long\<close>: white space,
  an optional sign, then digits up to the first other character; the value saturates at
  the ends of \<^verbatim>\<open>long\<close>.
\<close>

definition isspace_c :: "byte \<Rightarrow> bool" where
  "isspace_c c = (c = 0x20 \<or> (0x09 \<le> c \<and> c \<le> 0x0D))"

definition isdigit_c :: "byte \<Rightarrow> bool" where
  "isdigit_c c = (0x30 \<le> c \<and> c \<le> 0x39)"

fun strtol_digits :: "int \<Rightarrow> bytes \<Rightarrow> int" where
  "strtol_digits acc [] = acc"
| "strtol_digits acc (c # cs) =
     (if isdigit_c c then strtol_digits (acc * 10 + (uint c - 48)) cs else acc)"

definition strtol10 :: "bytes \<Rightarrow> int" where
  "strtol10 s =
     (let s1 = dropWhile isspace_c s;
          neg = (s1 \<noteq> [] \<and> hd s1 = 0x2D);
          s2 = (if s1 \<noteq> [] \<and> (hd s1 = 0x2D \<or> hd s1 = 0x2B) then tl s1 else s1);
          v = strtol_digits 0 s2
      in max (- (2 ^ 63)) (min (2 ^ 63 - 1) (if neg then - v else v)))"

text \<open>Four bytes in memory read as a \<^verbatim>\<open>uint32_t\<close> on a little-endian machine.\<close>

definition uint32_of_bytes :: "bytes \<Rightarrow> 32 word" where
  "uint32_of_bytes b =
     ucast (b ! 0) OR push_bit 8 (ucast (b ! 1)) OR push_bit 16 (ucast (b ! 2))
       OR push_bit 24 (ucast (b ! 3))"

text \<open>
  The block of \<^verbatim>\<open>auth_aes128_sha1_pack_auth_data\<close> (and of the UDP pre-encrypt) that
  resolves the user key once: from a parameter \<^verbatim>\<open>uid:key\<close>, else from the server key
  with a random uid.  \<^verbatim>\<open>uid_str[16]\<close> and \<^verbatim>\<open>key_str[128]\<close> are fixed arrays; a
  parameter that does not fit overruns them, which the model reports as \<open>None\<close>.
\<close>

definition resolve_user_key ::
  "server_info_t \<Rightarrow> auth_simple_local_data \<Rightarrow> rand_src
     \<Rightarrow> (auth_simple_local_data \<times> rand_src) option" where
  "resolve_user_key server l r =
     (if user_key l \<noteq> None then Some (l, r)
      else
        (case (case param server of
                 None \<Rightarrow> Some l
               | Some p \<Rightarrow>
                   if p = [] \<or> 0x3A \<notin> set p then Some l
                   else
                     let uid_str = takeWhile (\<lambda>c. c \<noteq> 0x3A) p;
                         key_str = tl (dropWhile (\<lambda>c. c \<noteq> 0x3A) p)
                     in if 16 \<le> length uid_str \<or> 128 \<le> length key_str then None
                        else Some (l\<lparr>uid := memintcopy_lt (word_of_int (strtol10 uid_str)),
                                     user_key := Some (filled (hash_len l) (hash l key_str))\<rparr>))
         of None \<Rightarrow> None
          | Some l1 \<Rightarrow>
              if user_key l1 = None then
                (case rand_bytes 4 r of
                   (u, r1) \<Rightarrow> Some (l1\<lparr>uid := u, user_key := Some (key server)\<rparr>, r1))
              else Some (l1, r)))"

text \<open>
  Lines 1133 to 1138: the connection counter is advanced, and past \<^verbatim>\<open>0xFF000000\<close>
  the client id and the counter are drawn afresh and the counter cut to 24 bits.
\<close>

definition bump_connection_id ::
  "auth_simple_global_data \<Rightarrow> rand_src \<Rightarrow> auth_simple_global_data \<times> rand_src" where
  "bump_connection_id g r =
     (let c = connection_id g + 1 in
      if 0xFF000000 < c then
        (case rand_bytes 8 r of
           (cid, r1) \<Rightarrow>
             (case rand_bytes 4 r1 of
                (c4, r2) \<Rightarrow>
                  (g\<lparr>local_client_id := cid,
                      connection_id := uint32_of_bytes c4 AND 0xFFFFFF\<rparr>, r2)))
      else (g\<lparr>connection_id := c\<rparr>, r))"

text \<open>
  \<^verbatim>\<open>auth_aes128_sha1_pack_auth_data\<close>.  The 24 bytes of \<^verbatim>\<open>encrypt\<close> are built in
  the order the code fills them; the output buffer is written as the code writes it.
\<close>

definition auth_aes128_sha1_pack_auth_data ::
  "auth_simple_global_data \<Rightarrow> server_info_t \<Rightarrow> auth_simple_local_data \<Rightarrow> bytes
     \<Rightarrow> externs \<Rightarrow> rand_src
     \<Rightarrow> (bytes \<times> auth_simple_global_data \<times> auth_simple_local_data \<times> rand_src) option" where
  "auth_aes128_sha1_pack_auth_data g server l data ext r =
     (let datalength = length data;
          (x, r1) = xorshift128plus r;
          rand_len = (if 400 < datalength then unat (x AND 0x1FF) else unat (x AND 0x3FF));
          data_offset = rand_len + 16 + 4 + 4 + 7;
          out_size = data_offset + datalength + 4;
          key_len = (length (iv server) + length (key server)) mod 256;
          k = take key_len (iv server @ key server);
          (rnd_data, r2) = rand_bytes rand_len r1;
          o1 = memcpy_at (replicate out_size 0) (data_offset - rand_len) rnd_data;
          (g1, r3) = bump_connection_id g r2;
          plain = memintcopy_lt (time_now ext) @ take 4 (local_client_id g1)
                    @ memintcopy_lt (connection_id g1)
                    @ [of_nat out_size, of_nat (out_size div 256),
                       of_nat rand_len, of_nat (rand_len div 256)]
      in case resolve_user_key server l r3 of
           None \<Rightarrow> None
         | Some (l1, r4) \<Rightarrow>
             let uk = user_key_bytes l1;
                 base64_len = (length uk + 2) div 3 * 4;
                 encrypt_key_base64 =
                   take base64_len (std_base64_encode ext uk @ replicate 256 0) @ salt l1;
                 enc_key = filled 16 (bytes_to_key_with_size ext encrypt_key_base64 16);
                 encrypt_data = filled 16 (ss_aes_128_cbc ext plain enc_key);
                 enc20 = take 4 (uid l1) @ encrypt_data;
                 encrypt = enc20 @ filled 4 (hmac l1 enc20 k);
                 (b0, r5) = rand_bytes 1 r4;
                 o2 = memcpy_at o1 0 b0;
                 o3 = memcpy_at o2 1 (filled 6 (hmac l1 (take 1 o2) k));
                 o4 = memcpy_at o3 7 encrypt;
                 o5 = memcpy_at o4 data_offset data;
                 o6 = memcpy_at o5 (out_size - 4)
                        (filled 4 (hmac l1 (take (out_size - 4) o5) uk))
             in Some (o6, g1, l1, r5))"

section \<open>Client pre-encrypt\<close>

text \<open>
  \<^verbatim>\<open>auth_aes128_sha1_client_pre_encrypt\<close>: the first call packs up to 1200 bytes as
  the first chunk, the rest goes out in units.  \<open>obfs->server.g_data\<close>, \<open>obfs->l_data\<close>
  and the oracle are the state passed through.  The first function keeps the chunks apart,
  the second gives the bytes left in the buffer.
\<close>

definition client_pre_encrypt_packs ::
  "server_info_t \<Rightarrow> externs \<Rightarrow> bytes
     \<Rightarrow> auth_simple_global_data \<times> auth_simple_local_data \<times> rand_src
     \<Rightarrow> (bytes list \<times> auth_simple_global_data \<times> auth_simple_local_data \<times> rand_src) option" where
  "client_pre_encrypt_packs server ext plaindata st =
     (case st of (g, l, r) \<Rightarrow>
       (let datalength = length plaindata in
        (case (if 0 < datalength \<and> has_sent_header l = 0 then
                 (let head_size = (if datalength < 1200 then datalength else 1200) in
                  (case auth_aes128_sha1_pack_auth_data g server l (take head_size plaindata)
                          ext r of
                     None \<Rightarrow> None
                   | Some (c, g1, l1, r1) \<Rightarrow>
                       Some ([c], drop head_size plaindata, g1,
                             l1\<lparr>has_sent_header := 1\<rparr>, r1)))
               else Some ([], plaindata, g, l, r))
         of None \<Rightarrow> None
          | Some (cs0, data, g1, l1, r1) \<Rightarrow>
              (case pack_units data datalength server l1 r1 of
                 (cs1, rest, l2, r2) \<Rightarrow>
                   (case (if 0 < length rest then
                            (case auth_aes128_sha1_pack_data rest datalength server l2 r2 of
                               (c, l3, r3) \<Rightarrow> ([c], l3, r3))
                          else ([], l2, r2))
                    of (cs2, l3, r3) \<Rightarrow>
                      Some (cs0 @ cs1 @ cs2, g1, l3\<lparr>last_data_len := int datalength\<rparr>,
                            r3))))))"

definition auth_aes128_sha1_client_pre_encrypt ::
  "server_info_t \<Rightarrow> externs \<Rightarrow> bytes
     \<Rightarrow> auth_simple_global_data \<times> auth_simple_local_data \<times> rand_src
     \<Rightarrow> (bytes \<times> auth_simple_global_data \<times> auth_simple_local_data \<times> rand_src) option" where
  "auth_aes128_sha1_client_pre_encrypt server ext plaindata st =
     (case client_pre_encrypt_packs server ext plaindata st of
        None \<Rightarrow> None
      | Some (cs, st') \<Rightarrow> Some (concat cs, st'))"

section \<open>Client post-decrypt\<close>

text \<open>
  The \<^verbatim>\<open>while (local->recv_buffer->len > 4)\<close> loop of
  \<^verbatim>\<open>auth_aes128_sha1_client_post_decrypt\<close>.  \<open>out\<close> is what has been copied to
  \<^verbatim>\<open>out_buffer\<close> so far; the result is the \<^verbatim>\<open>error\<close> flag, the output and the
  local data.  A frame whose two tags verify but whose padding length points behind its
  payload makes \<^verbatim>\<open>data_size\<close> negative; \<^verbatim>\<open>memmove\<close> with that size is undefined,
  and the model answers \<open>None\<close>.
\<close>

function post_decrypt_loop ::
  "auth_simple_local_data \<Rightarrow> bytes \<Rightarrow> (bool \<times> bytes \<times> auth_simple_local_data) option" where
  "post_decrypt_loop l out =
     (let rb = recv_buffer l in
      if 4 < length rb then
        (let k = user_key_bytes l @ memintcopy_lt (recv_id l) in
         if filled 2 (hmac l (take 2 rb) k) \<noteq> take 2 (drop 2 rb)
         then Some (True, out, l\<lparr>recv_buffer := []\<rparr>)
         else
           (let len = push_bit 8 (unat (rb ! 1)) + unat (rb ! 0) in
            if 8192 \<le> len \<or> len < 8 then Some (True, out, l\<lparr>recv_buffer := []\<rparr>)
            else if length rb < len then Some (False, out, l)
            else if filled 4 (hmac l (take (len - 4) rb) k) \<noteq> take 4 (drop (len - 4) rb)
            then Some (True, out, l\<lparr>recv_buffer := []\<rparr>)
            else
              (let pos = (if unat (rb ! 4) < 255 then unat (rb ! 4) + 4
                          else (push_bit 8 (unat (rb ! 6)) OR unat (rb ! 5)) + 4)
               in if len < pos + 4 then None
                  else post_decrypt_loop
                         (l\<lparr>recv_id := recv_id l + 1, recv_buffer := drop len rb\<rparr>)
                         (out @ take (len - pos - 4) (drop pos rb)))))
      else Some (False, out, l))"
  by pat_completeness auto
termination
  by (relation "measure (\<lambda>(l, _). length (recv_buffer l))") auto

declare post_decrypt_loop.simps [simp del]

text \<open>
  \<^verbatim>\<open>auth_aes128_sha1_client_post_decrypt\<close>: the return value, the bytes then in
  \<^verbatim>\<open>plaindata\<close> (the output, or the untouched input when \<open>-1\<close> is returned), and the
  local data.
\<close>

definition auth_aes128_sha1_client_post_decrypt ::
  "auth_simple_local_data \<Rightarrow> bytes \<Rightarrow> (int \<times> bytes \<times> auth_simple_local_data) option" where
  "auth_aes128_sha1_client_post_decrypt l plaindata =
     (let datalength = length plaindata in
      if 16384 < length (recv_buffer l) + datalength then Some (- 1, plaindata, l)
      else
        (case post_decrypt_loop (l\<lparr>recv_buffer := recv_buffer l @ plaindata\<rparr>) [] of
           None \<Rightarrow> None
         | Some (error, out, l') \<Rightarrow>
             if \<not> error then Some (int (length out), out, l')
             else Some (- 1, plaindata, l')))"

text \<open>
  \<^verbatim>\<open>auth_aes128_sha1_client_udp_post_decrypt\<close>: the return value and the bytes of the
  caller's buffer afterwards.  The function never stores to the buffer.
\<close>

definition auth_aes128_sha1_client_udp_post_decrypt ::
  "server_info_t \<Rightarrow> auth_simple_local_data \<Rightarrow> bytes \<Rightarrow> int \<times> bytes" where
  "auth_aes128_sha1_client_udp_post_decrypt server l plaindata =
     (let datalength = length plaindata in
      if datalength \<le> 4 then (0, plaindata)
      else if filled 4 (hmac l (take (datalength - 4) plaindata) (key server))
                \<noteq> take 4 (drop (datalength - 4) plaindata)
      then (0, plaindata)
      else (int (datalength - 4), plaindata))"

section \<open>Construction of the tunnel cipher\<close>

text \<open>
  \<^verbatim>\<open>struct obfs_manager\<close>, the entries the constructor calls, over plugin instances
  of type \<open>'i\<close>; the configuration and the environment, with the cipher's figures the
  constructor asks the cipher for.
\<close>

record 'i obfs_manager =
  new_obfs :: 'i
  get_overhead :: "'i \<Rightarrow> int"
  set_server_info :: "'i \<Rightarrow> server_info_t \<Rightarrow> 'i"

record server_config =
  remote_host :: bytes
  remote_port :: "16 word"
  obfs_param :: "bytes option"
  protocol_param :: "bytes option"

record 'i server_env_t =
  config :: server_config
  enc_ctx_get_iv :: bytes
  enc_get_iv_len :: int
  enc_get_key :: bytes
  enc_get_key_len :: int
  obfs_plugin :: "'i obfs_manager option"
  protocol_plugin :: "'i obfs_manager option"

record 'i tunnel_cipher_ctx =
  tc_obfs :: "'i option"
  tc_protocol :: "'i option"

text \<open>
  \<^verbatim>\<open>tunnel_cipher_create\<close>, the part between \<^verbatim>\<open>SSR beg\<close> and \<^verbatim>\<open>SSR end\<close>.
  \<open>buff_size\<close> is the constant \<^verbatim>\<open>SSR_BUFF_SIZE\<close> and \<open>head_size\<close> the result of
  \<^verbatim>\<open>get_head_size(init_pkg->buffer, init_pkg->len, 30)\<close>; neither is defined in the
  sources.  The overhead of the obfs instance is asked of \<open>tc->obfs\<close>, the instance
  after its \<^verbatim>\<open>set_server_info\<close>.  Beside the context the function gives the
  structs it passed to \<^verbatim>\<open>set_server_info\<close>, in the order of the calls.
\<close>

definition tunnel_cipher_create ::
  "nat \<Rightarrow> int \<Rightarrow> 'i server_env_t \<Rightarrow> 'i tunnel_cipher_ctx \<times> server_info_t list" where
  "tunnel_cipher_create buff_size head_size env =
     (let cf = config env;
          iv_len = (word_of_int (enc_get_iv_len env) :: 16 word);
          key_len = (word_of_int (enc_get_key_len env) :: 16 word);
          info0 = \<lparr>host = remote_host cf, port = remote_port cf, head_len = head_size,
                    iv = take (unat iv_len) (enc_ctx_get_iv env),
                    key = take (unat key_len) (enc_get_key env),
                    tcp_mss = 1452, buffer_size = buff_size,
                    param = obfs_param cf, g_data = Some Obfs_global, overhead = 0\<rparr>;
          (ob, calls0) = (case obfs_plugin env of
                  None \<Rightarrow> (None, [])
                | Some m \<Rightarrow> (Some (set_server_info m (new_obfs m) info0), [info0]));
          info1 = info0\<lparr>param := protocol_param cf, g_data := Some Protocol_global\<rparr>;
          (pr, calls1) = (case protocol_plugin env of
                  None \<Rightarrow> (None, calls0)
                | Some m \<Rightarrow>
                    let inst = new_obfs m;
                        p_len = get_overhead m inst;
                        o_len = (case obfs_plugin env of
                                   None \<Rightarrow> 0
                                 | Some om \<Rightarrow>
                                     get_overhead om (set_server_info om (new_obfs om) info0));
                        info2 = info1\<lparr>overhead := word_of_int (p_len + o_len)\<rparr>
                    in (Some (set_server_info m inst info2), calls0 @ [info2]))
      in (\<lparr>tc_obfs = ob, tc_protocol = pr\<rparr>, calls1))"

text \<open>\<^verbatim>\<open>auth_aes128_sha1_get_overhead\<close>.\<close>

definition auth_aes128_sha1_get_overhead :: "'i \<Rightarrow> int" where
  "auth_aes128_sha1_get_overhead obfs = 9"

section \<open>The tunnel state machine\<close>

datatype session_state =
    session_handshake | session_handshake_auth | session_req_start | session_req_parse
  | session_req_udp_accoc | session_req_lookup | session_req_connect | session_ssr_auth_sent
  | session_proxy_start | session_proxy | session_kill | session_dead

datatype socket_state = socket_stop | socket_busy | socket_done | socket_dead

datatype sa_family = AF_INET | AF_INET6 | AF_UNSPEC

text \<open>
  \<^verbatim>\<open>struct socket_ctx\<close>: the last result, the two state machines, the address family
  in \<open>t.addr\<close>, and what the model records of the calls into the I/O library: the buffers
  handed to \<^verbatim>\<open>uv_write\<close>, in order, and whether the handle and the timer were closed.
\<close>

record socket_ctx =
  result :: int
  rdstate :: socket_state
  wrstate :: socket_state
  addr_family :: sa_family
  written :: "bytes list"
  closing :: bool

record tunnel_ctx =
  state :: session_state
  incoming :: socket_ctx
  outgoing :: socket_ctx
  ref_count :: int
  init_pkg :: bytes
  lookup_cancelled :: bool

text \<open>
  What a handler takes from outside the sources: the listener's access rule, the return
  value of \<^verbatim>\<open>uv_tcp_connect\<close>, the outcome of \<^verbatim>\<open>tunnel_encrypt\<close> on the initial
  package (\<open>None\<close> for an error), and the two error codes of the I/O library the
  callbacks compare with.
\<close>

record io_env =
  can_access :: bool
  uv_tcp_connect :: int
  tunnel_encrypt :: "bytes \<Rightarrow> bytes option"
  UV_ECANCELED :: int
  UV_ECONNREFUSED :: int

text \<open>
  The outcome of a handler: it ran to its end, it stopped in \<^verbatim>\<open>ASSERT\<close>,
  \<^verbatim>\<open>CHECK\<close> or \<^verbatim>\<open>UNREACHABLE\<close>, or it is a handler of the handshake, the request
  parser or the proxy phase, which this development does not cover.
\<close>

datatype 'a outcome = Ran 'a | Aborted | Not_covered

definition socket_write :: "socket_ctx \<Rightarrow> bytes \<Rightarrow> socket_ctx outcome" where
  "socket_write c data =
     (if wrstate c = socket_stop \<or> wrstate c = socket_done
      then Ran (c\<lparr>wrstate := socket_busy, written := written c @ [data]\<rparr>)
      else Aborted)"

definition socket_close :: "socket_ctx \<Rightarrow> socket_ctx outcome" where
  "socket_close c =
     (if rdstate c \<noteq> socket_dead \<and> wrstate c \<noteq> socket_dead
      then Ran (c\<lparr>rdstate := socket_dead, wrstate := socket_dead, closing := True\<rparr>)
      else Aborted)"

definition tunnel_is_dead :: "tunnel_ctx \<Rightarrow> bool" where
  "tunnel_is_dead tunnel = (state tunnel = session_dead)"

text \<open>\<^verbatim>\<open>tunnel_shutdown\<close>; each \<^verbatim>\<open>socket_close\<close> takes two references.\<close>

definition tunnel_shutdown :: "tunnel_ctx \<Rightarrow> tunnel_ctx outcome" where
  "tunnel_shutdown tunnel =
     (if tunnel_is_dead tunnel then Aborted
      else
        let t1 = (if state tunnel = session_req_lookup
                  then tunnel\<lparr>lookup_cancelled := True\<rparr> else tunnel)
        in case socket_close (incoming t1) of
             Ran i \<Rightarrow>
               (case socket_close (outgoing t1) of
                  Ran o' \<Rightarrow>
                    Ran (t1\<lparr>incoming := i, outgoing := o', ref_count := ref_count t1 + 4,
                            state := session_dead\<rparr>)
                | Aborted \<Rightarrow> Aborted
                | Not_covered \<Rightarrow> Not_covered)
           | Aborted \<Rightarrow> Aborted
           | Not_covered \<Rightarrow> Not_covered)"

definition all_stopped :: "tunnel_ctx \<Rightarrow> bool" where
  "all_stopped tunnel =
     (rdstate (incoming tunnel) = socket_stop \<and> wrstate (incoming tunnel) = socket_stop \<and>
      rdstate (outgoing tunnel) = socket_stop \<and> wrstate (outgoing tunnel) = socket_stop)"

definition do_req_connect_start :: "io_env \<Rightarrow> tunnel_ctx \<Rightarrow> tunnel_ctx outcome" where
  "do_req_connect_start env tunnel =
     (if \<not> all_stopped tunnel then Aborted
      else if \<not> can_access env then
        (case socket_write (incoming tunnel) [5, 2, 0, 1, 0, 0, 0, 0, 0, 0] of
           Ran i \<Rightarrow> Ran (tunnel\<lparr>incoming := i, state := session_kill\<rparr>)
         | Aborted \<Rightarrow> Aborted
         | Not_covered \<Rightarrow> Not_covered)
      else if addr_family (outgoing tunnel) = AF_UNSPEC then Aborted
      else if uv_tcp_connect env \<noteq> 0 then tunnel_shutdown tunnel
      else Ran (tunnel\<lparr>state := session_req_connect\<rparr>))"

definition do_req_lookup :: "io_env \<Rightarrow> tunnel_ctx \<Rightarrow> tunnel_ctx outcome" where
  "do_req_lookup env tunnel =
     (if \<not> all_stopped tunnel then Aborted
      else if result (outgoing tunnel) < 0 then
        (case socket_write (incoming tunnel) [5, 4, 0, 1, 0, 0, 0, 0, 0, 0] of
           Ran i \<Rightarrow> Ran (tunnel\<lparr>incoming := i, state := session_kill\<rparr>)
         | Aborted \<Rightarrow> Aborted
         | Not_covered \<Rightarrow> Not_covered)
      else if addr_family (outgoing tunnel) = AF_UNSPEC then Aborted
      else do_req_connect_start env tunnel)"

definition do_req_connect :: "io_env \<Rightarrow> tunnel_ctx \<Rightarrow> tunnel_ctx outcome" where
  "do_req_connect env tunnel =
     (if \<not> all_stopped tunnel then Aborted
      else if result (outgoing tunnel) = 0 then
        (case tunnel_encrypt env (init_pkg tunnel) of
           None \<Rightarrow> tunnel_shutdown tunnel
         | Some tmp \<Rightarrow>
             (case socket_write (outgoing tunnel) tmp of
                Ran o' \<Rightarrow> Ran (tunnel\<lparr>outgoing := o', state := session_ssr_auth_sent\<rparr>)
              | Aborted \<Rightarrow> Aborted
              | Not_covered \<Rightarrow> Not_covered))
      else
        (case socket_write (incoming tunnel) [5, 5, 0, 1, 0, 0, 0, 0, 0, 0] of
           Ran i \<Rightarrow> Ran (tunnel\<lparr>incoming := i, state := session_kill\<rparr>)
         | Aborted \<Rightarrow> Aborted
         | Not_covered \<Rightarrow> Not_covered))"

text \<open>\<^verbatim>\<open>do_next\<close>, for the states between the request and the first upstream write.\<close>

definition do_next :: "io_env \<Rightarrow> tunnel_ctx \<Rightarrow> tunnel_ctx outcome" where
  "do_next env tunnel =
     (case state tunnel of
        session_req_lookup \<Rightarrow> do_req_lookup env tunnel
      | session_req_connect \<Rightarrow> do_req_connect env tunnel
      | session_kill \<Rightarrow> tunnel_shutdown tunnel
      | session_dead \<Rightarrow> Aborted
      | _ \<Rightarrow> Not_covered)"

text \<open>
  The completion callbacks of the resolver and of the connect request.  \<open>fam\<close> is the
  family of the first address the resolver returned.
\<close>

definition socket_getaddrinfo_done_cb ::
  "io_env \<Rightarrow> int \<Rightarrow> sa_family \<Rightarrow> tunnel_ctx \<Rightarrow> tunnel_ctx outcome" where
  "socket_getaddrinfo_done_cb env status fam tunnel =
     (let t1 = tunnel\<lparr>outgoing := (outgoing tunnel)\<lparr>result := status\<rparr>\<rparr> in
      if tunnel_is_dead t1 then Ran t1
      else if status = 0 then
        (if fam = AF_UNSPEC then Aborted
         else do_next env (t1\<lparr>outgoing := (outgoing t1)\<lparr>addr_family := fam\<rparr>\<rparr>))
      else do_next env t1)"

definition socket_connect_done_cb :: "io_env \<Rightarrow> int \<Rightarrow> tunnel_ctx \<Rightarrow> tunnel_ctx outcome" where
  "socket_connect_done_cb env status tunnel =
     (let t1 = tunnel\<lparr>outgoing := (outgoing tunnel)\<lparr>result := status\<rparr>\<rparr> in
      if tunnel_is_dead t1 then Ran t1
      else if status = UV_ECANCELED env \<or> status = UV_ECONNREFUSED env then tunnel_shutdown t1
      else do_next env t1)"

section \<open>The layout of a data chunk, and sample data\<close>

text \<open>
  What \<^verbatim>\<open>auth_aes128_sha1_pack_data\<close> leaves in the padding area: the \<open>rand_len\<close>
  random bytes with the length marker stored over the first one or three of them.
\<close>

definition rand_marker :: "nat \<Rightarrow> bytes \<Rightarrow> bytes" where
  "rand_marker rand_len rnd =
     (if rand_len < 128 then of_nat rand_len # drop 1 rnd
      else [0xFF, of_nat rand_len, of_nat (rand_len div 256)] @ drop 3 rnd)"

text \<open>A data chunk without its last tag: size, first tag, padding, payload.\<close>

definition frame_body :: "auth_simple_local_data \<Rightarrow> bytes \<Rightarrow> bytes \<Rightarrow> bytes" where
  "frame_body l rnd data =
     (let out_size = length rnd + length data + 8;
          hd2 = [of_nat out_size, of_nat (out_size div 256)]
      in hd2 @ filled 2 (hmac l hd2 (pack_key l)) @ rand_marker (length rnd) rnd @ data)"

text \<open>The padding length of the first chunk (line 1113), for a payload of \<open>n\<close> bytes.\<close>

definition auth_rand_len :: "nat \<Rightarrow> rand_src \<Rightarrow> nat" where
  "auth_rand_len n r =
     (if 400 < n then unat (xs_out r (xs_pos r) AND 0x1FF)
      else unat (xs_out r (xs_pos r) AND 0x3FF))"

text \<open>
  The tail of the pre-encrypt functions, from the \<^verbatim>\<open>while\<close> loop to the last partial
  chunk, as one function: the chunks it appends and the state it leaves.
\<close>

definition pack_remainder ::
  "bytes \<Rightarrow> nat \<Rightarrow> server_info_t \<Rightarrow> auth_simple_local_data \<Rightarrow> rand_src
     \<Rightarrow> bytes list \<times> auth_simple_local_data \<times> rand_src" where
  "pack_remainder data full server l r =
     (case pack_units data full server l r of
        (cs1, rest, l2, r2) \<Rightarrow>
          if 0 < length rest then
            (case auth_aes128_sha1_pack_data rest full server l2 r2 of
               (c, l3, r3) \<Rightarrow> (cs1 @ [c], l3, r3))
          else (cs1, l2, r2))"

text \<open>
  The spec's words for the remainder, "in units of exactly 2000 bytes, then a final
  partial chunk", as a function of the payload: the payloads of the data chunks in order.
  \<open>pack_each\<close> packs a list of payloads one after the other with
  \<^verbatim>\<open>auth_aes128_sha1_pack_data\<close>.
\<close>

function units :: "bytes \<Rightarrow> bytes list" where
  "units d =
     (if auth_simple_pack_unit_size < length d
      then take auth_simple_pack_unit_size d # units (drop auth_simple_pack_unit_size d)
      else if d = [] then [] else [d])"
  by pat_completeness auto
termination
  by (relation "measure length") (auto simp: auth_simple_pack_unit_size_def)

declare units.simps [simp del]

fun pack_each ::
  "bytes list \<Rightarrow> nat \<Rightarrow> server_info_t \<Rightarrow> auth_simple_local_data \<Rightarrow> rand_src
     \<Rightarrow> bytes list \<times> auth_simple_local_data \<times> rand_src" where
  "pack_each [] full server l r = ([], l, r)"
| "pack_each (d # ds) full server l r =
     (case auth_aes128_sha1_pack_data d full server l r of
        (c, l1, r1) \<Rightarrow>
          (case pack_each ds full server l1 r1 of
             (cs, l2, r2) \<Rightarrow> (c # cs, l2, r2)))"

text \<open>
  The protocol parameter fits the two arrays \<^verbatim>\<open>uid_str[16]\<close> and
  \<^verbatim>\<open>key_str[128]\<close> of the user-key block (when it has a colon at all).
\<close>

definition param_fits :: "server_info_t \<Rightarrow> bool" where
  "param_fits server =
     (case param server of
        None \<Rightarrow> True
      | Some p \<Rightarrow>
          0x3A \<in> set p \<longrightarrow>
            length (takeWhile (\<lambda>c. c \<noteq> 0x3A) p) < 16
            \<and> length (tl (dropWhile (\<lambda>c. c \<noteq> 0x3A) p)) < 128)"

text \<open>
  The round trip of the claim on one plugin instance: the stream is packed by the client
  pre-encrypt and the bytes it leaves are handed, in one piece, to the client post-decrypt
  of the same instance (so user key and server data match, and \<open>recv_id\<close> is at its
  start when \<open>pack_id\<close> was).  The result is what post-decrypt returns and leaves in the
  buffer.
\<close>

definition pre_then_post ::
  "server_info_t \<Rightarrow> externs \<Rightarrow> bytes
     \<Rightarrow> auth_simple_global_data \<times> auth_simple_local_data \<times> rand_src
     \<Rightarrow> (int \<times> bytes) option" where
  "pre_then_post server ext s st =
     (case auth_aes128_sha1_client_pre_encrypt server ext s st of
        None \<Rightarrow> None
      | Some (wire, g', l', r') \<Rightarrow>
          (case auth_aes128_sha1_client_post_decrypt l' wire of
             None \<Rightarrow> None
           | Some (ret, out, l'') \<Rightarrow> Some (ret, out)))"

text \<open>
  The receiving side fed piece by piece, as the bytes arrive: the outputs of the calls in
  order, and the local data at the end.  \<open>None\<close> when a call reports an error (the tunnel
  is shut down then) or is undefined.
\<close>

fun post_decrypt_all ::
  "auth_simple_local_data \<Rightarrow> bytes list \<Rightarrow> (bytes \<times> auth_simple_local_data) option" where
  "post_decrypt_all l [] = Some ([], l)"
| "post_decrypt_all l (p # ps) =
     (case auth_aes128_sha1_client_post_decrypt l p of
        None \<Rightarrow> None
      | Some (ret, out, l1) \<Rightarrow>
          if ret < 0 then None
          else (case post_decrypt_all l1 ps of
                  None \<Rightarrow> None
                | Some (outs, l2) \<Rightarrow> Some (out @ outs, l2)))"

text \<open>
  A frame as the post-decrypt loop accepts it under the digest \<open>h\<close>, the user key \<open>K\<close>
  and the id \<open>i\<close>: \<open>f\<close> is a whole frame and \<open>d\<close> the payload the loop copies out of
  it.  \<open>frames_ok\<close> is a run of such frames with consecutive ids.
\<close>

definition frame_of ::
  "(bytes \<Rightarrow> bytes \<Rightarrow> bytes) \<Rightarrow> bytes \<Rightarrow> 32 word \<Rightarrow> bytes \<Rightarrow> bytes \<Rightarrow> bool" where
  "frame_of h K i f d =
     (let k = K @ memintcopy_lt i;
          len = length f;
          pos = (if unat (f ! 4) < 255 then unat (f ! 4) + 4
                 else (push_bit 8 (unat (f ! 6)) OR unat (f ! 5)) + 4)
      in 8 \<le> len \<and> len < 8192
         \<and> push_bit 8 (unat (f ! 1)) + unat (f ! 0) = len
         \<and> filled 2 (h (take 2 f) k) = take 2 (drop 2 f)
         \<and> filled 4 (h (take (len - 4) f) k) = drop (len - 4) f
         \<and> pos + 4 \<le> len
         \<and> d = take (len - pos - 4) (drop pos f))"

fun frames_ok ::
  "(bytes \<Rightarrow> bytes \<Rightarrow> bytes) \<Rightarrow> bytes \<Rightarrow> 32 word \<Rightarrow> bytes list \<Rightarrow> bytes list \<Rightarrow> bool" where
  "frames_ok h K i [] [] = True"
| "frames_ok h K i (f # fs) (d # ds) = (frame_of h K i f d \<and> frames_ok h K (i + 1) fs ds)"
| "frames_ok h K i _ _ = False"

text \<open>
  The pieces of the first chunk, named for the statements about it: the 16 bytes that are
  encrypted (time, client id, connection id, \<open>out_size\<close> and \<open>rand_len\<close>), and the
  AES key derived from base64 of the user key followed by the salt.
\<close>

definition auth_plain :: "auth_simple_global_data \<Rightarrow> externs \<Rightarrow> nat \<Rightarrow> nat \<Rightarrow> bytes" where
  "auth_plain g1 ext out_size rand_len =
     memintcopy_lt (time_now ext) @ take 4 (local_client_id g1)
       @ memintcopy_lt (connection_id g1)
       @ [of_nat out_size, of_nat (out_size div 256), of_nat rand_len, of_nat (rand_len div 256)]"

definition auth_enc_key :: "externs \<Rightarrow> auth_simple_local_data \<Rightarrow> bytes" where
  "auth_enc_key ext l1 =
     (let uk = user_key_bytes l1;
          base64_len = (length uk + 2) div 3 * 4
      in filled 16 (bytes_to_key_with_size ext
           (take base64_len (std_base64_encode ext uk @ replicate 256 0) @ salt l1) 16))"

text \<open>The value of a string of decimal digits, read from the left.\<close>

fun dec_acc :: "nat \<Rightarrow> bytes \<Rightarrow> nat" where
  "dec_acc a [] = a"
| "dec_acc a (c # cs) = dec_acc (a * 10 + (unat c - 48)) cs"

definition dec_value :: "bytes \<Rightarrow> nat" where
  "dec_value s = dec_acc 0 s"

text \<open>
  Sample data for concrete runs: a 16-byte checksum in the place of the keyed digest and
  of the hash, pass-through collaborators, a constant oracle, and a server with a two-byte
  IV and a three-byte key.
\<close>

definition sample_hmac :: "bytes \<Rightarrow> bytes \<Rightarrow> bytes" where
  "sample_hmac msg k = replicate 16 (sum_list msg + sum_list k)"

definition sample_hash :: "bytes \<Rightarrow> bytes" where
  "sample_hash msg = replicate 16 (sum_list msg)"

definition sample_local :: auth_simple_local_data where
  "sample_local = auth_aes128_md5_new_obfs sample_hmac sample_hash 0"

text \<open>The sample instance after its first chunk: header sent, user key resolved.\<close>

definition sample_sender :: auth_simple_local_data where
  "sample_sender = sample_local\<lparr>has_sent_header := 1, user_key := Some [3, 4, 5]\<rparr>"

definition sample_server :: server_info_t where
  "sample_server =
     \<lparr>host = cstr ''example'', port = 443, head_len = 7, iv = [1, 2], key = [3, 4, 5],
      tcp_mss = 1452, buffer_size = 2048, param = None, g_data = Some Protocol_global,
      overhead = 9\<rparr>"

text \<open>The sample server of a user with the parameter \<^verbatim>\<open>42:secret\<close>.\<close>

definition sample_user_server :: server_info_t where
  "sample_user_server = sample_server\<lparr>param := Some (cstr ''42:secret'')\<rparr>"

text \<open>
  A server whose parameter has a colon after a name that is not a number, and a random
  source whose bytes are all \<open>0x55\<close>.
\<close>

definition sample_named_server :: server_info_t where
  "sample_named_server = sample_server\<lparr>param := Some (cstr ''abc:k'')\<rparr>"

definition sample_rand55 :: rand_src where
  "sample_rand55 = \<lparr>xs_out = (\<lambda>i. 0), xs_pos = 0, rb_out = (\<lambda>i. 0x55), rb_pos = 0\<rparr>"

definition sample_global :: auth_simple_global_data where
  "sample_global = \<lparr>local_client_id = [1, 2, 3, 4, 5, 6, 7, 8], connection_id = 5\<rparr>"

definition sample_rand :: rand_src where
  "sample_rand = \<lparr>xs_out = (\<lambda>i. 0), xs_pos = 0, rb_out = (\<lambda>i. 0), rb_pos = 0\<rparr>"

definition sample_ext :: externs where
  "sample_ext =
     \<lparr>std_base64_encode = (\<lambda>b. b), bytes_to_key_with_size = (\<lambda>b n. take n b),
      ss_aes_128_cbc = (\<lambda>p k. p), time_now = 0\<rparr>"

text \<open>
  A sample environment with both plugins; an instance is the list of the overheads it was
  told.  A sample tunnel waiting for its upstream connect, with the Linux values of the two
  error codes.
\<close>

definition sample_env :: "(16 word list) server_env_t" where
  "sample_env =
     \<lparr>config = \<lparr>remote_host = cstr ''example'', remote_port = 443, obfs_param = None,
                  protocol_param = None\<rparr>,
      enc_ctx_get_iv = [1, 2], enc_get_iv_len = 2, enc_get_key = [3, 4, 5], enc_get_key_len = 3,
      obfs_plugin = Some \<lparr>new_obfs = [], get_overhead = (\<lambda>i. 4),
                           set_server_info = (\<lambda>i info. i @ [overhead info])\<rparr>,
      protocol_plugin = Some \<lparr>new_obfs = [], get_overhead = auth_aes128_sha1_get_overhead,
                               set_server_info = (\<lambda>i info. i @ [overhead info])\<rparr>\<rparr>"

definition sample_socket :: socket_ctx where
  "sample_socket =
     \<lparr>result = 0, rdstate = socket_stop, wrstate = socket_stop, addr_family = AF_INET,
      written = [], closing = False\<rparr>"

definition sample_tunnel :: tunnel_ctx where
  "sample_tunnel =
     \<lparr>state = session_req_connect, incoming = sample_socket, outgoing = sample_socket,
      ref_count = 0, init_pkg = [1, 1, 2, 3, 4, 0x1F, 0x90], lookup_cancelled = False\<rparr>"

definition sample_io :: io_env where
  "sample_io =
     \<lparr>can_access = True, uv_tcp_connect = 0, tunnel_encrypt = (\<lambda>b. Some b),
      UV_ECANCELED = - 125, UV_ECONNREFUSED = - 111\<rparr>"


section \<open>Facts about the buffers and the padding length\<close>

lemma length_memcpy_at:
  "off + length src \<le> length buf \<Longrightarrow> length (memcpy_at buf off src) = length buf"
  by (simp add: memcpy_at_def)

lemma memcpy_at_mid:
  "length a = off \<Longrightarrow> length src = length b \<Longrightarrow> memcpy_at (a @ b @ c) off src = a @ src @ c"
  by (simp add: memcpy_at_def)

lemma length_filled [simp]: "length (filled n xs) = n"
  by (simp add: filled_def)

lemma length_rand_bytes [simp]: "length (fst (rand_bytes n r)) = n"
  by (simp add: rand_bytes_def)

lemma unat_and_mask_le: "unat ((x::64 word) AND m) \<le> unat m"
  by (rule word_and_le1 [THEN word_le_nat_alt [THEN iffD1]])

lemma get_rand_len_le: "fst (get_rand_len n f l s r) \<le> 1023"
proof -
  have a: "unat (x AND 0x7F) \<le> 1023" "unat (x AND 0xFF) \<le> 1023"
     "unat (x AND 0x1FF) \<le> 1023" "unat (x AND 0x3FF) \<le> 1023" for x :: "64 word"
    using unat_and_mask_le[of x "0x7F"] unat_and_mask_le[of x "0xFF"]
      unat_and_mask_le[of x "0x1FF"] unat_and_mask_le[of x "0x3FF"] by simp_all
  show ?thesis
    by (simp add: get_rand_len_def xorshift128plus_def Let_def a)
qed

lemma get_rand_len_big: "1300 < n \<Longrightarrow> fst (get_rand_len n f l s r) = 0"
  by (simp add: get_rand_len_def)

lemma length_rand_marker: "length rnd = n \<Longrightarrow> 0 < n \<Longrightarrow> length (rand_marker n rnd) = n"
  by (auto simp: rand_marker_def)

lemma upd1: "0 < length rnd \<Longrightarrow> rnd[0 := a] = a # drop 1 rnd"
  by (cases rnd) auto

lemma upd3: "3 \<le> length rnd \<Longrightarrow> rnd[0 := a, 1 := b, 2 := c] = [a, b, c] @ drop 3 rnd"
proof -
  assume "3 \<le> length rnd"
  then obtain x y z t where "rnd = x # y # z # t"
    by (cases rnd; cases "tl rnd"; cases "tl (tl rnd)") auto
  then show ?thesis by (simp add: numeral_eq_Suc)
qed

lemma rand_marker_upd:
  assumes "length rnd = n" "0 < n" "length a = 4"
  shows "(if n < 128 then (a @ rnd @ c)[4 := of_nat n]
          else (a @ rnd @ c)[4 := 0xFF, 5 := of_nat n, 6 := of_nat (n div 256)])
         = a @ rand_marker n rnd @ c"
proof (cases "n < 128")
  case True
  then show ?thesis using assms by (simp add: rand_marker_def list_update_append upd1)
next
  case False
  then have "3 \<le> length rnd" using assms by simp
  from upd3[OF this] False assms show ?thesis
    by (simp add: rand_marker_def list_update_append)
qed

lemma pack_data_layout:
  "auth_aes128_sha1_pack_data data full server l r =
     (let (g, r1) = get_rand_len (length data) full l server r;
          (rnd, r2) = rand_bytes (g + 1) r1;
          body = frame_body l rnd data
      in (body @ filled 4 (hmac l body (pack_key l)), l\<lparr>pack_id := pack_id l + 1\<rparr>, r2))"
proof -
  obtain g r1 where g: "get_rand_len (length data) full l server r = (g, r1)"
    by (cases "get_rand_len (length data) full l server r")
  obtain rnd r2 where rnd: "rand_bytes (g + 1) r1 = (rnd, r2)"
    by (cases "rand_bytes (g + 1) r1")
  have lr: "length rnd = g + 1" using rnd by (auto simp: rand_bytes_def)
  define S where "S = g + 1 + length data + 8"
  define lo :: byte where "lo = of_nat S"
  define hi :: byte where "hi = of_nat (S div 256)"
  define k where "k = pack_key l"
  define z4 :: bytes where "z4 = replicate 4 0"
  have lz: "length z4 = 4" by (simp add: z4_def)
  have o1: "memcpy_at (replicate S 0) (g + 1 + 4) data
      = replicate (g + 5) 0 @ data @ z4"
    by (simp add: memcpy_at_def S_def z4_def)
  have o2: "(replicate (g + 5) 0 @ data @ z4)[0 := lo, 1 := hi]
      = [lo, hi, 0, 0] @ replicate (g + 1) 0 @ data @ z4"
    by (simp add: numeral_eq_Suc)
  have o3: "memcpy_at ([lo, hi, 0, 0] @ replicate (g + 1) 0 @ data @ z4) 4 rnd
      = [lo, hi, 0, 0] @ rnd @ data @ z4"
    by (rule memcpy_at_mid) (simp_all add: lr)
  define tag2 where "tag2 = filled 2 (hmac l [lo, hi] k)"
  have lt: "length tag2 = 2" by (simp add: tag2_def)
  have o4: "memcpy_at ([lo, hi, 0, 0] @ rnd @ data @ z4) 2 tag2
      = ([lo, hi] @ tag2) @ rnd @ data @ z4"
    using memcpy_at_mid[of "[lo, hi]" 2 tag2 "[0, 0]" "rnd @ data @ z4"] lt by simp
  have o5: "(if g + 1 < 128 then (([lo, hi] @ tag2) @ rnd @ data @ z4)[4 := of_nat (g + 1)]
          else (([lo, hi] @ tag2) @ rnd @ data @ z4)[4 := 0xFF, 5 := of_nat (g + 1),
                 6 := of_nat ((g + 1) div 256)])
         = ([lo, hi] @ tag2) @ rand_marker (g + 1) rnd @ data @ z4"
    by (rule rand_marker_upd) (simp_all add: lr lt)
  have t2: "take 2 ([lo, hi, 0, 0] @ rnd @ data @ z4) = [lo, hi]" by simp
  define body where "body = [lo, hi] @ tag2 @ rand_marker (g + 1) rnd @ data"
  have lb: "length body = S - 4"
    using length_rand_marker[OF lr] by (simp add: body_def lt S_def)
  have b5: "([lo, hi] @ tag2) @ rand_marker (g + 1) rnd @ data @ z4 = body @ z4"
    by (simp add: body_def)
  have o6: "memcpy_at (body @ z4) (S - 4) t4 = body @ t4" if "length t4 = 4" for t4
    using memcpy_at_mid[of body "S - 4" t4 z4 "[]"] that lb lz by simp
  have tk: "take (S - 4) (body @ z4) = body" using lb by simp
  have fb: "frame_body l rnd data = body"
    by (simp add: frame_body_def body_def lr S_def lo_def hi_def tag2_def k_def Let_def)
  have "auth_aes128_sha1_pack_data data full server l r
      = (body @ filled 4 (hmac l body k), l\<lparr>pack_id := pack_id l + 1\<rparr>, r2)"
    unfolding auth_aes128_sha1_pack_data_def Let_def g rnd prod.case
    unfolding S_def[symmetric] k_def[symmetric] 
    by (simp only: lo_def[symmetric] hi_def[symmetric] o1 add.assoc[symmetric]
          o2 o3 t2 tag2_def[symmetric] o4 o5 b5 tk o6[OF length_filled])
  then show ?thesis using rnd by (simp add: g fb k_def)
qed


section \<open>Data chunks\<close>

lemma le16_header:
  "S < 65536 \<Longrightarrow> le16 ([of_nat S, of_nat (S div 256)] @ rest) = S"
  by (simp add: le16_def unat_of_nat take_bit_eq_mod) 

lemma length_frame_body:
  "0 < length rnd \<Longrightarrow> length (frame_body l rnd data) = length rnd + length data + 4"
  using length_rand_marker[of rnd "length rnd"] by (simp add: frame_body_def Let_def)

text \<open>
  Claim C9.  A data chunk packed by \<^verbatim>\<open>auth_aes128_sha1_pack_data\<close> from a payload of
  1 to 2000 bytes carries at least one byte of padding (\<open>rand_len\<close> is
  \<^verbatim>\<open>get_rand_len(...) + 1\<close>), is \<open>rand_len + n + 8\<close> bytes long, and that length
  lies in \<open>[10, 8192)\<close>; the length field a receiver reads from its first two bytes is
  that length, so it passes the receiver's check \<open>8 \<le> length < 8192\<close>.
\<close>

theorem pack_data_length_bounds:
  assumes "1 \<le> length data" and "length data \<le> 2000"
  shows "(let rand_len = fst (get_rand_len (length data) full l server r) + 1;
              c = fst (auth_aes128_sha1_pack_data data full server l r)
          in 1 \<le> rand_len \<and> length c = rand_len + length data + 8
             \<and> 10 \<le> length c \<and> length c < 8192
             \<and> le16 c = length c \<and> 8 \<le> le16 c \<and> le16 c < 8192)"
proof -
  obtain g r1 where g: "get_rand_len (length data) full l server r = (g, r1)"
    by (cases "get_rand_len (length data) full l server r")
  obtain rnd r2 where rnd: "rand_bytes (g + 1) r1 = (rnd, r2)"
    by (cases "rand_bytes (g + 1) r1")
  have lr: "length rnd = g + 1" using rnd by (auto simp: rand_bytes_def)
  have gle: "g \<le> 1023" using get_rand_len_le[of "length data" full l server r] g by simp
  define c where "c = fst (auth_aes128_sha1_pack_data data full server l r)"
  have c: "c = frame_body l rnd data @ filled 4 (hmac l (frame_body l rnd data) (pack_key l))"
    using rnd by (simp add: c_def pack_data_layout g Let_def)
  have len: "length c = g + 1 + length data + 8"
    using length_frame_body[of rnd l data] lr by (simp add: c)
  have "le16 c = g + 1 + length data + 8"
  proof -
    have "g + 1 + length data + 8 < 65536" using gle assms by simp
    from le16_header[OF this] show ?thesis
      by (simp add: c frame_body_def Let_def lr)
  qed
  with len gle assms show ?thesis
    by (simp add: Let_def g c_def[symmetric])
qed

theorem pack_data_length_bounds_witness:
  "1 \<le> length [7, 8, 9 :: byte] \<and> length [7, 8, 9 :: byte] \<le> 2000
   \<and> fst (get_rand_len 3 3 sample_local sample_server sample_rand) + 1 = 1
   \<and> length (fst (auth_aes128_sha1_pack_data [7, 8, 9] 3 sample_server sample_local sample_rand)) = 12
   \<and> le16 (fst (auth_aes128_sha1_pack_data [7, 8, 9] 3 sample_server sample_local sample_rand)) = 12"
  using pack_data_length_bounds [of "[7, 8, 9]" 3 sample_local sample_server sample_rand]
  by (simp add: Let_def get_rand_len_def xorshift128plus_def sample_local_def sample_server_def
        sample_rand_def auth_aes128_md5_new_obfs_def auth_simple_local_data_init_def)

section \<open>UDP post-decrypt\<close>

text \<open>
  Claim C10.  \<^verbatim>\<open>auth_aes128_sha1_client_udp_post_decrypt\<close> never returns a negative
  value and never changes the caller's buffer: an input of at most 4 bytes gives 0, an
  input whose last four bytes are not the first four bytes of the digest (keyed by the
  server key) of the bytes in front of them gives 0, and any other input gives its length
  minus 4, the retained bytes being the input's own.
\<close>

theorem udp_post_decrypt_result:
  "(let res = auth_aes128_sha1_client_udp_post_decrypt server l p;
        n = length p;
        tag = filled 4 (hmac l (take (n - 4) p) (key server))
    in 0 \<le> fst res \<and> snd res = p
       \<and> (n \<le> 4 \<longrightarrow> fst res = 0)
       \<and> (4 < n \<and> tag \<noteq> drop (n - 4) p \<longrightarrow> fst res = 0)
       \<and> (4 < n \<and> tag = drop (n - 4) p \<longrightarrow> fst res = int n - 4 \<and> nat (fst res) = n - 4))"
  by (auto simp: auth_aes128_sha1_client_udp_post_decrypt_def Let_def)

theorem udp_post_decrypt_result_witness:
  "auth_aes128_sha1_client_udp_post_decrypt sample_server sample_local [1, 2, 3] = (0, [1, 2, 3])
   \<and> auth_aes128_sha1_client_udp_post_decrypt sample_server sample_local [1, 2, 0, 0, 0, 0]
       = (0, [1, 2, 0, 0, 0, 0])
   \<and> auth_aes128_sha1_client_udp_post_decrypt sample_server sample_local [1, 2, 15, 15, 15, 15]
       = (2, [1, 2, 15, 15, 15, 15])"
proof -
  have t: "filled 4 (hmac sample_local [1, 2] (key sample_server)) = [15, 15, 15, 15]"
    by code_simp
  have a: "auth_aes128_sha1_client_udp_post_decrypt sample_server sample_local [1, 2, 3]
      = (0, [1, 2, 3])"
    using udp_post_decrypt_result [where server = sample_server and l = sample_local
        and p = "[1, 2, 3]"]
    by (simp add: Let_def prod_eq_iff)
  have b: "auth_aes128_sha1_client_udp_post_decrypt sample_server sample_local [1, 2, 0, 0, 0, 0]
      = (0, [1, 2, 0, 0, 0, 0])"
    using udp_post_decrypt_result [where server = sample_server and l = sample_local
        and p = "[1, 2, 0, 0, 0, 0]"] t
    by (simp add: Let_def prod_eq_iff)
  have c: "auth_aes128_sha1_client_udp_post_decrypt sample_server sample_local
        [1, 2, 15, 15, 15, 15] = (2, [1, 2, 15, 15, 15, 15])"
    using udp_post_decrypt_result [where server = sample_server and l = sample_local
        and p = "[1, 2, 15, 15, 15, 15]"] t
    by (simp add: Let_def prod_eq_iff)
  from a b c show ?thesis by simp
qed

section \<open>The connection counter\<close>

lemma rand_bytes_fst: "fst (rand_bytes n r) = map (rb_out r) [rb_pos r ..< rb_pos r + n]"
  by (simp add: rand_bytes_def)

lemma rand_bytes_snd:
  "rb_pos (snd (rand_bytes n r)) = rb_pos r + n" "rb_out (snd (rand_bytes n r)) = rb_out r"
  "xs_pos (snd (rand_bytes n r)) = xs_pos r" "xs_out (snd (rand_bytes n r)) = xs_out r"
  by (simp_all add: rand_bytes_def)

lemma and_mask24_le: "(w :: 32 word) AND 0xFFFFFF \<le> 0xFFFFFF"
  by (rule word_and_le1)

lemma bump_connection_id_cases:
  "(let c = connection_id g + 1; g' = fst (bump_connection_id g r); p = rb_pos r
    in (c \<le> 0xFF000000 \<longrightarrow>
          connection_id g' = c \<and> local_client_id g' = local_client_id g
          \<and> snd (bump_connection_id g r) = r)
     \<and> (0xFF000000 < c \<longrightarrow>
          local_client_id g' = map (rb_out r) [p ..< p + 8]
          \<and> connection_id g' = uint32_of_bytes (map (rb_out r) [p + 8 ..< p + 12]) AND 0xFFFFFF
          \<and> connection_id g' \<le> 0xFFFFFF))"
  by (auto simp: bump_connection_id_def Let_def rand_bytes_def and_mask24_le ac_simps
      split: prod.splits)

lemma pack_auth_data_global:
  assumes "auth_aes128_sha1_pack_auth_data g server l data ext r = Some (out, g1, l1, r5)"
  shows "g1 = fst (bump_connection_id g
                (snd (rand_bytes (auth_rand_len (length data) r) (snd (xorshift128plus r)))))"
proof -
  define r1 where "r1 = snd (xorshift128plus r)"
  define n where "n = auth_rand_len (length data) r"
  have x: "xorshift128plus r = (xs_out r (xs_pos r), r1)"
    by (simp add: r1_def xorshift128plus_def)
  have n: "(if 400 < length data then unat (xs_out r (xs_pos r) AND 0x1FF)
            else unat (xs_out r (xs_pos r) AND 0x3FF)) = n"
    by (simp add: n_def auth_rand_len_def)
  obtain rnd r2 where rb: "rand_bytes n r1 = (rnd, r2)" by (cases "rand_bytes n r1")
  obtain g' r3 where b: "bump_connection_id g r2 = (g', r3)"
    by (cases "bump_connection_id g r2")
  from assms have "g1 = g'"
    unfolding auth_aes128_sha1_pack_auth_data_def Let_def x prod.case n rb b
    by (cases "resolve_user_key server l r3") (auto split: prod.splits)
  then show ?thesis using rb b by (simp add: n_def r1_def)
qed

lemma pack_tail_eq:
  "(case pack_units data full server l r of
      (cs1, rest, l2, r2) \<Rightarrow>
        (case (if 0 < length rest then
                 (case auth_aes128_sha1_pack_data rest full server l2 r2 of
                    (c, l3, r3) \<Rightarrow> ([c], l3, r3))
               else ([], l2, r2))
         of (cs2, l3, r3) \<Rightarrow> F (cs0 @ cs1 @ cs2) l3 r3))
   = (case pack_remainder data full server l r of (cs, l3, r3) \<Rightarrow> F (cs0 @ cs) l3 r3)"
proof -
  obtain cs1 rest l2 r2 where pu: "pack_units data full server l r = (cs1, rest, l2, r2)"
    by (cases "pack_units data full server l r")
  obtain c l3 r3 where pd: "auth_aes128_sha1_pack_data rest full server l2 r2 = (c, l3, r3)"
    by (cases "auth_aes128_sha1_pack_data rest full server l2 r2")
  show ?thesis
    by (cases "0 < length rest") (simp_all add: pack_remainder_def pu pd)
qed

lemma pre_encrypt_packs_later:
  assumes "\<not> (0 < length s \<and> has_sent_header l = 0)"
  shows "client_pre_encrypt_packs server ext s (g, l, r) =
     (case pack_remainder s (length s) server l r of
        (cs, l3, r3) \<Rightarrow> Some (cs, g, l3\<lparr>last_data_len := int (length s)\<rparr>, r3))"
  unfolding client_pre_encrypt_packs_def Let_def prod.case
  apply (subst if_not_P, rule assms)
  apply (simp only: option.case prod.case)
  apply (subst pack_tail_eq[where ?cs0.0 = "[]"
      and F = "\<lambda>cs l3 r3. Some (cs, g, l3\<lparr>last_data_len := int (length s)\<rparr>, r3)"])
  apply (simp only: append_Nil)
  done

lemma pre_encrypt_packs_first:
  assumes "0 < length s" "has_sent_header l = 0"
  shows "client_pre_encrypt_packs server ext s (g, l, r) =
     (case auth_aes128_sha1_pack_auth_data g server l (take (min 1200 (length s)) s) ext r of
        None \<Rightarrow> None
      | Some (c, g1, l1, r1) \<Rightarrow>
          (case pack_remainder (drop (min 1200 (length s)) s) (length s) server
                  (l1\<lparr>has_sent_header := 1\<rparr>) r1 of
             (cs, l3, r3) \<Rightarrow> Some (c # cs, g1, l3\<lparr>last_data_len := int (length s)\<rparr>, r3)))"
proof -
  have m: "(if length s < 1200 then length s else 1200) = min 1200 (length s)"
    by (simp add: min_def)
  have c: "0 < length s \<and> has_sent_header l = 0" using assms by simp
  show ?thesis
  proof (cases "auth_aes128_sha1_pack_auth_data g server l (take (min 1200 (length s)) s) ext r")
    case None
    show ?thesis
      unfolding client_pre_encrypt_packs_def Let_def prod.case m
      by (subst if_P, rule c) (simp only: None option.case)
  next
    case (Some q)
    obtain c1 g1 l1 r1 where q: "q = (c1, g1, l1, r1)" by (cases q)
    show ?thesis
      unfolding client_pre_encrypt_packs_def Let_def prod.case m
      apply (subst if_P, rule c)
      apply (simp only: Some q option.case prod.case)
      apply (subst pack_tail_eq[where ?cs0.0 = "[c1]"
          and F = "\<lambda>cs l3 r3. Some (cs, g1, l3\<lparr>last_data_len := int (length s)\<rparr>, r3)"])
      apply (simp only: append_Cons append_Nil)
      done
  qed
qed

lemma pre_encrypt_global:
  assumes "client_pre_encrypt_packs server ext s (g, l, r) = Some (cs, g', l', r')"
  shows "(s = [] \<or> has_sent_header l \<noteq> 0 \<longrightarrow> g' = g)
       \<and> (s \<noteq> [] \<and> has_sent_header l = 0 \<longrightarrow>
            g' = fst (bump_connection_id g
                (snd (rand_bytes (auth_rand_len (min 1200 (length s)) r)
                   (snd (xorshift128plus r))))))"
proof (cases "0 < length s \<and> has_sent_header l = 0")
  case False
  from assms have "g' = g"
    unfolding pre_encrypt_packs_later[OF False] by (simp split: prod.splits)
  with False show ?thesis by auto
next
  case True
  then have t: "0 < length s" "has_sent_header l = 0" by simp_all
  from assms obtain c g1 l1 r1 where
    p: "auth_aes128_sha1_pack_auth_data g server l (take (min 1200 (length s)) s) ext r
          = Some (c, g1, l1, r1)" and gg: "g' = g1"
    unfolding pre_encrypt_packs_first[OF t]
    by (auto split: option.splits prod.splits)
  from pack_auth_data_global[OF p] gg True show ?thesis by simp
qed


text \<open>
  Claim C5, as amended.  The plugin-global state changes only in the call of the client
  pre-encrypt that packs the first chunk (non-empty input, \<open>has_sent_header = 0\<close>), and
  there \<open>connection_id\<close> is advanced once.  When the advanced value exceeds
  \<^verbatim>\<open>0xFF000000\<close>, \<open>local_client_id\<close> is replaced by the next 8 bytes of the random
  source and \<open>connection_id\<close> by the following 4 bytes masked to 24 bits, so it is at
  most \<^verbatim>\<open>0xFFFFFF\<close>; up to and including \<^verbatim>\<open>0xFF000000\<close> the advanced value is
  kept and \<open>local_client_id\<close> stays.
\<close>

theorem connection_id_per_tunnel:
  assumes "client_pre_encrypt_packs server ext s (g, l, r) = Some (cs, g', l', r')"
  shows "(s = [] \<or> has_sent_header l \<noteq> 0 \<longrightarrow> g' = g)
       \<and> (s \<noteq> [] \<and> has_sent_header l = 0 \<longrightarrow>
            (let c = connection_id g + 1;
                 p = rb_pos r + auth_rand_len (min 1200 (length s)) r
             in (c \<le> 0xFF000000 \<longrightarrow>
                   connection_id g' = c \<and> local_client_id g' = local_client_id g)
              \<and> (0xFF000000 < c \<longrightarrow>
                   local_client_id g' = map (rb_out r) [p ..< p + 8]
                   \<and> connection_id g'
                       = uint32_of_bytes (map (rb_out r) [p + 8 ..< p + 12]) AND 0xFFFFFF
                   \<and> connection_id g' \<le> 0xFFFFFF)))"
proof -
  define r2 where
    "r2 = snd (rand_bytes (auth_rand_len (min 1200 (length s)) r) (snd (xorshift128plus r)))"
  have r2: "rb_out r2 = rb_out r"
    "rb_pos r2 = rb_pos r + auth_rand_len (min 1200 (length s)) r"
    by (simp_all add: r2_def rand_bytes_snd xorshift128plus_def)
  from pre_encrypt_global[OF assms] bump_connection_id_cases[of g r2]
  show ?thesis
    unfolding r2_def[symmetric] Let_def r2 by auto
qed

text \<open>
  The claim as stated re-seeds on reaching \<^verbatim>\<open>0xFF000000\<close>.  From
  \<^verbatim>\<open>0xFEFFFFFF\<close> the counter reaches \<^verbatim>\<open>0xFF000000\<close> and is left there, above 24
  bits, with the client id unchanged: the test in the code is \<^verbatim>\<open>>\<close>.
\<close>

theorem connection_id_threshold_counterexample:
  "map_option (fst \<circ> snd)
     (client_pre_encrypt_packs sample_server sample_ext [1]
        (\<lparr>local_client_id = [1, 2, 3, 4, 5, 6, 7, 8], connection_id = 0xFEFFFFFF\<rparr>,
         sample_local, sample_rand))
     = Some \<lparr>local_client_id = [1, 2, 3, 4, 5, 6, 7, 8], connection_id = 0xFF000000\<rparr>
   \<and> \<not> (0xFF000000 :: 32 word) \<le> 0xFFFFFF"
  by code_simp


theorem connection_id_per_tunnel_witness:
  "map_option (connection_id \<circ> fst \<circ> snd)
     (client_pre_encrypt_packs sample_server sample_ext [1]
        (sample_global, sample_local, sample_rand)) = Some 6
   \<and> map_option (local_client_id \<circ> fst \<circ> snd)
     (client_pre_encrypt_packs sample_server sample_ext [1]
        (sample_global, sample_local, sample_rand)) = Some [1, 2, 3, 4, 5, 6, 7, 8]"
proof -
  have "\<not> Option.is_none (client_pre_encrypt_packs sample_server sample_ext [1]
        (sample_global, sample_local, sample_rand))"
    by code_simp
  then obtain cs g' l' r' where e: "client_pre_encrypt_packs sample_server sample_ext [1]
        (sample_global, sample_local, sample_rand) = Some (cs, g', l', r')"
    by (auto simp: Option.is_none_def)
  have h: "has_sent_header sample_local = 0"
    by (simp add: sample_local_def auth_aes128_md5_new_obfs_def auth_simple_local_data_init_def)
  from connection_id_per_tunnel [OF e] h
  have "connection_id g' = 6 \<and> local_client_id g' = [1, 2, 3, 4, 5, 6, 7, 8]"
    by (simp add: Let_def sample_global_def)
  with e show ?thesis by simp
qed

section \<open>Construction of the tunnel cipher\<close>

lemma uint16_sum:
  assumes "0 \<le> a + b" and "a + b < 65536"
  shows "uint (word_of_int a + word_of_int b :: 16 word) = a + b"
proof -
  have "word_of_int a + word_of_int b = (word_of_int (a + b) :: 16 word)" by simp
  moreover have "uint (word_of_int (a + b) :: 16 word) = a + b"
    using assms by (simp add: uint_word_of_int take_bit_int_eq_self del: of_int_add)
  ultimately show ?thesis by (simp only:)
qed

text \<open>
  Claim C8, as amended.  With both plugins present \<^verbatim>\<open>tunnel_cipher_create\<close> calls
  \<^verbatim>\<open>set_server_info\<close> twice.  The protocol instance receives a struct whose
  \<open>overhead\<close> is the sum of the two plugins' overheads (cut to 16 bits, so the sum itself
  when it lies in \<open>[0, 65536)\<close>), whose \<open>tcp_mss\<close> is 1452 and whose \<open>buffer_size\<close>
  is \<^verbatim>\<open>SSR_BUFF_SIZE\<close>.  The obfs instance is served first, before the sum is
  computed: its struct has the same \<open>tcp_mss\<close> and \<open>buffer_size\<close> and the overhead 0.
  Without an obfs plugin the protocol instance receives its own overhead.
\<close>

theorem tunnel_cipher_create_server_info:
  "(obfs_plugin env = Some om \<and> protocol_plugin env = Some pm \<longrightarrow>
      (\<exists>io ip. snd (tunnel_cipher_create buff head env) = [io, ip]
         \<and> tc_obfs (fst (tunnel_cipher_create buff head env))
             = Some (set_server_info om (new_obfs om) io)
         \<and> tc_protocol (fst (tunnel_cipher_create buff head env))
             = Some (set_server_info pm (new_obfs pm) ip)
         \<and> overhead io = 0 \<and> tcp_mss io = 1452 \<and> buffer_size io = buff
         \<and> overhead ip = word_of_int (get_overhead pm (new_obfs pm)
                            + get_overhead om (set_server_info om (new_obfs om) io))
         \<and> (0 \<le> get_overhead pm (new_obfs pm)
                    + get_overhead om (set_server_info om (new_obfs om) io)
              \<and> get_overhead pm (new_obfs pm)
                    + get_overhead om (set_server_info om (new_obfs om) io) < 65536
              \<longrightarrow> uint (overhead ip) = get_overhead pm (new_obfs pm)
                    + get_overhead om (set_server_info om (new_obfs om) io))
         \<and> tcp_mss ip = 1452 \<and> buffer_size ip = buff))
   \<and> (obfs_plugin env = None \<and> protocol_plugin env = Some pm \<longrightarrow>
      (\<exists>ip. snd (tunnel_cipher_create buff head env) = [ip]
         \<and> tc_obfs (fst (tunnel_cipher_create buff head env)) = None
         \<and> tc_protocol (fst (tunnel_cipher_create buff head env))
             = Some (set_server_info pm (new_obfs pm) ip)
         \<and> overhead ip = word_of_int (get_overhead pm (new_obfs pm))
         \<and> tcp_mss ip = 1452 \<and> buffer_size ip = buff))"
  by (simp add: tunnel_cipher_create_def Let_def uint16_sum)

theorem tunnel_cipher_create_server_info_witness:
  "map overhead (snd (tunnel_cipher_create 2048 7 sample_env)) = [0, 13]
   \<and> map tcp_mss (snd (tunnel_cipher_create 2048 7 sample_env)) = [1452, 1452]
   \<and> map buffer_size (snd (tunnel_cipher_create 2048 7 sample_env)) = [2048, 2048]"
  using tunnel_cipher_create_server_info [where env = sample_env and buff = 2048 and head = 7
      and om = "the (obfs_plugin sample_env)" and pm = "the (protocol_plugin sample_env)"]
  by (auto simp: sample_env_def auth_aes128_sha1_get_overhead_def)

text \<open>
  The claim as stated gives both instances the sum.  With a protocol overhead of 9 and an
  obfs overhead of 4 the obfs instance is told 0 and the protocol instance 13.
\<close>

theorem obfs_overhead_counterexample:
  "map overhead (snd (tunnel_cipher_create 2048 7 sample_env)) = [0, 13]
   \<and> tc_obfs (fst (tunnel_cipher_create 2048 7 sample_env)) = Some [0]
   \<and> tc_protocol (fst (tunnel_cipher_create 2048 7 sample_env)) = Some [13]"
  by (simp add: tunnel_cipher_create_def Let_def sample_env_def auth_aes128_sha1_get_overhead_def)

section \<open>Replies to a failed lookup and a failed connect\<close>

lemma do_req_lookup_failed:
  assumes "all_stopped t" and "result (outgoing t) < 0"
  shows "do_req_lookup env t =
     Ran (t\<lparr>incoming := (incoming t)\<lparr>wrstate := socket_busy,
                 written := written (incoming t) @ [[5, 4, 0, 1, 0, 0, 0, 0, 0, 0]]\<rparr>,
             state := session_kill\<rparr>)"
  using assms by (simp add: do_req_lookup_def socket_write_def all_stopped_def)

lemma do_req_connect_failed:
  assumes "all_stopped t" and "result (outgoing t) \<noteq> 0"
  shows "do_req_connect env t =
     Ran (t\<lparr>incoming := (incoming t)\<lparr>wrstate := socket_busy,
                 written := written (incoming t) @ [[5, 5, 0, 1, 0, 0, 0, 0, 0, 0]]\<rparr>,
             state := session_kill\<rparr>)"
  using assms by (simp add: do_req_connect_def socket_write_def all_stopped_def)

text \<open>
  Claim C7, as amended.  On a live tunnel in \<open>req_lookup\<close> whose sockets are idle, a
  resolver completion with a negative status writes exactly
  \<^verbatim>\<open>05 04 00 01 00 00 00 00 00 00\<close> to the client and moves the tunnel to \<open>kill\<close>.
  \<^verbatim>\<open>do_req_connect\<close> answers every non-zero connect result with exactly
  \<^verbatim>\<open>05 05 00 01 00 00 00 00 00 00\<close> and \<open>kill\<close>, and that is what a connect
  completion leads to for every failure status but two: the completion callback shuts the
  tunnel down at once, with nothing written, when the status is \<^verbatim>\<open>UV_ECANCELED\<close> or
  \<^verbatim>\<open>UV_ECONNREFUSED\<close>.  From \<open>kill\<close> the next step is the shutdown.
\<close>

theorem failed_lookup_and_connect:
  "(state t = session_req_lookup \<and> all_stopped t \<and> status < 0 \<longrightarrow>
      socket_getaddrinfo_done_cb env status fam t =
        Ran (t\<lparr>outgoing := (outgoing t)\<lparr>result := status\<rparr>,
                incoming := (incoming t)\<lparr>wrstate := socket_busy,
                    written := written (incoming t) @ [[5, 4, 0, 1, 0, 0, 0, 0, 0, 0]]\<rparr>,
                state := session_kill\<rparr>))
   \<and> (all_stopped t \<and> result (outgoing t) \<noteq> 0 \<longrightarrow>
      do_req_connect env t =
        Ran (t\<lparr>incoming := (incoming t)\<lparr>wrstate := socket_busy,
                    written := written (incoming t) @ [[5, 5, 0, 1, 0, 0, 0, 0, 0, 0]]\<rparr>,
                state := session_kill\<rparr>))
   \<and> (state t = session_req_connect \<and> all_stopped t \<and> status \<noteq> 0
        \<and> status \<noteq> UV_ECANCELED env \<and> status \<noteq> UV_ECONNREFUSED env \<longrightarrow>
      socket_connect_done_cb env status t =
        Ran (t\<lparr>outgoing := (outgoing t)\<lparr>result := status\<rparr>,
                incoming := (incoming t)\<lparr>wrstate := socket_busy,
                    written := written (incoming t) @ [[5, 5, 0, 1, 0, 0, 0, 0, 0, 0]]\<rparr>,
                state := session_kill\<rparr>))
   \<and> (state t = session_req_connect \<and> all_stopped t
        \<and> (status = UV_ECANCELED env \<or> status = UV_ECONNREFUSED env) \<longrightarrow>
      socket_connect_done_cb env status t =
        Ran (t\<lparr>outgoing := (outgoing t)\<lparr>result := status, rdstate := socket_dead,
                    wrstate := socket_dead, closing := True\<rparr>,
                incoming := (incoming t)\<lparr>rdstate := socket_dead, wrstate := socket_dead,
                    closing := True\<rparr>,
                ref_count := ref_count t + 4,
                state := session_dead\<rparr>))
   \<and> (state t = session_kill \<longrightarrow> do_next env t = tunnel_shutdown t)"
proof -
  let ?t1 = "t\<lparr>outgoing := (outgoing t)\<lparr>result := status\<rparr>\<rparr>"
  have s1: "all_stopped t \<Longrightarrow> all_stopped ?t1" by (simp add: all_stopped_def)
  have a: "state t = session_req_lookup \<and> all_stopped t \<and> status < 0 \<longrightarrow>
      socket_getaddrinfo_done_cb env status fam t =
        Ran (t\<lparr>outgoing := (outgoing t)\<lparr>result := status\<rparr>,
                incoming := (incoming t)\<lparr>wrstate := socket_busy,
                    written := written (incoming t) @ [[5, 4, 0, 1, 0, 0, 0, 0, 0, 0]]\<rparr>,
                state := session_kill\<rparr>)"
    using do_req_lookup_failed[of ?t1 env] s1
    by (auto simp: socket_getaddrinfo_done_cb_def Let_def tunnel_is_dead_def do_next_def)
  have b: "all_stopped t \<and> result (outgoing t) \<noteq> 0 \<longrightarrow>
      do_req_connect env t =
        Ran (t\<lparr>incoming := (incoming t)\<lparr>wrstate := socket_busy,
                    written := written (incoming t) @ [[5, 5, 0, 1, 0, 0, 0, 0, 0, 0]]\<rparr>,
                state := session_kill\<rparr>)"
    using do_req_connect_failed[of t env] by simp
  have c: "state t = session_req_connect \<and> all_stopped t \<and> status \<noteq> 0
        \<and> status \<noteq> UV_ECANCELED env \<and> status \<noteq> UV_ECONNREFUSED env \<longrightarrow>
      socket_connect_done_cb env status t =
        Ran (t\<lparr>outgoing := (outgoing t)\<lparr>result := status\<rparr>,
                incoming := (incoming t)\<lparr>wrstate := socket_busy,
                    written := written (incoming t) @ [[5, 5, 0, 1, 0, 0, 0, 0, 0, 0]]\<rparr>,
                state := session_kill\<rparr>)"
    using do_req_connect_failed[of ?t1 env] s1
    by (auto simp: socket_connect_done_cb_def Let_def tunnel_is_dead_def do_next_def)
  have d: "state t = session_req_connect \<and> all_stopped t
        \<and> (status = UV_ECANCELED env \<or> status = UV_ECONNREFUSED env) \<longrightarrow>
      socket_connect_done_cb env status t =
        Ran (t\<lparr>outgoing := (outgoing t)\<lparr>result := status, rdstate := socket_dead,
                    wrstate := socket_dead, closing := True\<rparr>,
                incoming := (incoming t)\<lparr>rdstate := socket_dead, wrstate := socket_dead,
                    closing := True\<rparr>,
                ref_count := ref_count t + 4,
                state := session_dead\<rparr>)"
    by (auto simp: socket_connect_done_cb_def Let_def tunnel_is_dead_def tunnel_shutdown_def
        socket_close_def all_stopped_def)
  have e: "state t = session_kill \<longrightarrow> do_next env t = tunnel_shutdown t"
    by (simp add: do_next_def)
  from a b c d e show ?thesis by blast
qed

theorem failed_lookup_and_connect_witness:
  "socket_getaddrinfo_done_cb sample_io (- 3008) AF_UNSPEC
       (sample_tunnel\<lparr>state := session_req_lookup\<rparr>) =
     Ran (sample_tunnel\<lparr>state := session_req_lookup,
            outgoing := sample_socket\<lparr>result := - 3008\<rparr>,
            incoming := sample_socket\<lparr>wrstate := socket_busy,
               written := [[5, 4, 0, 1, 0, 0, 0, 0, 0, 0]]\<rparr>,
            state := session_kill\<rparr>)
   \<and> socket_connect_done_cb sample_io (- 110) sample_tunnel =
     Ran (sample_tunnel\<lparr>
            outgoing := sample_socket\<lparr>result := - 110\<rparr>,
            incoming := sample_socket\<lparr>wrstate := socket_busy,
               written := [[5, 5, 0, 1, 0, 0, 0, 0, 0, 0]]\<rparr>,
            state := session_kill\<rparr>)"
  using failed_lookup_and_connect [where t = "sample_tunnel\<lparr>state := session_req_lookup\<rparr>"
      and env = sample_io and status = "- 3008" and fam = AF_UNSPEC]
    failed_lookup_and_connect [where t = sample_tunnel and env = sample_io and status = "- 110"]
  by (simp add: all_stopped_def sample_tunnel_def sample_socket_def sample_io_def)

text \<open>
  The claim as stated has every failed connect answered with the reply.  A refused connect
  (status \<^verbatim>\<open>UV_ECONNREFUSED\<close>, \<open>-111\<close> on Linux) ends in \<open>dead\<close> with no
  byte written to either socket.
\<close>

theorem refused_connect_counterexample:
  "(case socket_connect_done_cb sample_io (- 111) sample_tunnel of
      Ran t' \<Rightarrow> state t' = session_dead \<and> written (incoming t') = []
                \<and> written (outgoing t') = [] \<and> result (outgoing t') = - 111
    | Aborted \<Rightarrow> False
    | Not_covered \<Rightarrow> False)"
  by (simp add: socket_connect_done_cb_def Let_def tunnel_is_dead_def tunnel_shutdown_def
        socket_close_def sample_tunnel_def sample_socket_def sample_io_def)

section \<open>The receive buffer and the length field\<close>

lemma post_decrypt_loop_short:
  "length (recv_buffer l) \<le> 4 \<Longrightarrow> post_decrypt_loop l out = Some (False, out, l)"
  by (subst post_decrypt_loop.simps) (simp add: Let_def)

lemma post_decrypt_loop_bad_length:
  assumes "4 < length (recv_buffer l)"
    and "le16 (recv_buffer l) < 8 \<or> 8192 \<le> le16 (recv_buffer l)"
  shows "post_decrypt_loop l out = Some (True, out, l\<lparr>recv_buffer := []\<rparr>)"
  using assms
  by (subst post_decrypt_loop.simps) (auto simp: Let_def le16_def push_bit_eq_mult)

text \<open>
  Claim C6, as amended.  \<^verbatim>\<open>auth_aes128_sha1_client_post_decrypt\<close> returns \<open>-1\<close>
  and leaves everything as it is when the buffered length plus the input length exceeds
  16384; otherwise it appends the input to \<open>recv_buffer\<close>.  It validates a frame only
  when more than 4 bytes are buffered: with 4 bytes or fewer the call returns 0 bytes and
  keeps them.  Whenever more than 4 bytes are buffered and the little-endian length field
  is less than 8 or at least 8192, the buffer is cleared and the error is reported; this
  holds at the first frame of a call and at every later turn of the loop.
\<close>

theorem post_decrypt_buffer_and_length:
  "(16384 < length (recv_buffer l) + length p \<longrightarrow>
      auth_aes128_sha1_client_post_decrypt l p = Some (- 1, p, l))
   \<and> (length (recv_buffer l) + length p \<le> 4 \<longrightarrow>
      auth_aes128_sha1_client_post_decrypt l p
        = Some (0, [], l\<lparr>recv_buffer := recv_buffer l @ p\<rparr>))
   \<and> (4 < length (recv_buffer l) + length p \<and> length (recv_buffer l) + length p \<le> 16384
        \<and> (le16 (recv_buffer l @ p) < 8 \<or> 8192 \<le> le16 (recv_buffer l @ p)) \<longrightarrow>
      auth_aes128_sha1_client_post_decrypt l p = Some (- 1, p, l\<lparr>recv_buffer := []\<rparr>))
   \<and> (4 < length (recv_buffer l)
        \<and> (le16 (recv_buffer l) < 8 \<or> 8192 \<le> le16 (recv_buffer l)) \<longrightarrow>
      post_decrypt_loop l out = Some (True, out, l\<lparr>recv_buffer := []\<rparr>))"
proof -
  let ?l = "l\<lparr>recv_buffer := recv_buffer l @ p\<rparr>"
  have a: "16384 < length (recv_buffer l) + length p \<longrightarrow>
      auth_aes128_sha1_client_post_decrypt l p = Some (- 1, p, l)"
    by (simp add: auth_aes128_sha1_client_post_decrypt_def)
  have b: "length (recv_buffer l) + length p \<le> 4 \<longrightarrow>
      auth_aes128_sha1_client_post_decrypt l p = Some (0, [], ?l)"
    using post_decrypt_loop_short[of ?l "[]"]
    by (simp add: auth_aes128_sha1_client_post_decrypt_def)
  have c: "4 < length (recv_buffer l) + length p \<and> length (recv_buffer l) + length p \<le> 16384
        \<and> (le16 (recv_buffer l @ p) < 8 \<or> 8192 \<le> le16 (recv_buffer l @ p)) \<longrightarrow>
      auth_aes128_sha1_client_post_decrypt l p = Some (- 1, p, l\<lparr>recv_buffer := []\<rparr>)"
    using post_decrypt_loop_bad_length[of ?l "[]"]
    by (auto simp: auth_aes128_sha1_client_post_decrypt_def)
  have d: "4 < length (recv_buffer l)
        \<and> (le16 (recv_buffer l) < 8 \<or> 8192 \<le> le16 (recv_buffer l)) \<longrightarrow>
      post_decrypt_loop l out = Some (True, out, l\<lparr>recv_buffer := []\<rparr>)"
    using post_decrypt_loop_bad_length[of l out] by blast
  from a b c d show ?thesis by blast
qed

text \<open>
  The claim as stated validates from 4 buffered bytes on.  Four bytes with the length
  field 0 are accepted: the call returns 0, reports no error and keeps the four bytes.
\<close>

theorem four_bytes_not_validated_counterexample:
  "auth_aes128_sha1_client_post_decrypt sample_local [0, 0, 0, 0]
     = Some (0, [], sample_local\<lparr>recv_buffer := [0, 0, 0, 0]\<rparr>)
   \<and> le16 [0, 0, 0, 0] = 0"
  by (simp add: auth_aes128_sha1_client_post_decrypt_def post_decrypt_loop_short le16_def
      sample_local_def auth_aes128_md5_new_obfs_def auth_simple_local_data_init_def)

theorem post_decrypt_buffer_and_length_witness:
  "auth_aes128_sha1_client_post_decrypt (sample_local\<lparr>recv_buffer := replicate 16383 0\<rparr>) [1, 2]
     = Some (- 1, [1, 2], sample_local\<lparr>recv_buffer := replicate 16383 0\<rparr>)
   \<and> auth_aes128_sha1_client_post_decrypt sample_local [1, 2]
     = Some (0, [], sample_local\<lparr>recv_buffer := [1, 2]\<rparr>)
   \<and> auth_aes128_sha1_client_post_decrypt sample_local [7, 0, 9, 9, 9]
     = Some (- 1, [7, 0, 9, 9, 9], sample_local)
   \<and> post_decrypt_loop (sample_local\<lparr>recv_buffer := [0, 32, 9, 9, 9]\<rparr>) [5]
     = Some (True, [5], sample_local)"
proof -
  have e: "recv_buffer sample_local = []" "sample_local\<lparr>recv_buffer := []\<rparr> = sample_local"
    by (simp_all add: sample_local_def auth_aes128_md5_new_obfs_def
        auth_simple_local_data_init_def)
  have a: "auth_aes128_sha1_client_post_decrypt (sample_local\<lparr>recv_buffer := replicate 16383 0\<rparr>)
       [1, 2] = Some (- 1, [1, 2], sample_local\<lparr>recv_buffer := replicate 16383 0\<rparr>)"
    using post_decrypt_buffer_and_length
      [where l = "sample_local\<lparr>recv_buffer := replicate 16383 0\<rparr>" and p = "[1, 2]"]
    by simp
  have b: "auth_aes128_sha1_client_post_decrypt sample_local [1, 2]
     = Some (0, [], sample_local\<lparr>recv_buffer := [1, 2]\<rparr>)"
    using post_decrypt_buffer_and_length [where l = sample_local and p = "[1, 2]"]
    by (simp add: e)
  have c: "auth_aes128_sha1_client_post_decrypt sample_local [7, 0, 9, 9, 9]
     = Some (- 1, [7, 0, 9, 9, 9], sample_local)"
    using post_decrypt_buffer_and_length [where l = sample_local and p = "[7, 0, 9, 9, 9]"]
    by (simp add: e le16_def)
  have d: "post_decrypt_loop (sample_local\<lparr>recv_buffer := [0, 32, 9, 9, 9]\<rparr>) [5]
     = Some (True, [5], sample_local)"
    using post_decrypt_buffer_and_length
      [where l = "sample_local\<lparr>recv_buffer := [0, 32, 9, 9, 9]\<rparr>" and out = "[5]"]
    by (simp add: e le16_def)
  from a b c d show ?thesis by simp
qed

section \<open>The units of the remainder\<close>

lemma units_Nil: "units [] = []"
  by (simp add: units.simps[of "[]"])

lemma units_concat: "concat (units d) = d"
  by (induction d rule: units.induct) (subst units.simps, simp)

lemma units_sizes: "u \<in> set (units d) \<Longrightarrow> 0 < length u \<and> length u \<le> 2000"
proof (induction d rule: units.induct)
  case (1 d)
  then show ?case
    by (subst (asm) (2) units.simps) (auto simp: auth_simple_pack_unit_size_def split: if_splits)
qed

lemma units_butlast: "u \<in> set (butlast (units d)) \<Longrightarrow> length u = 2000"
proof (induction d rule: units.induct)
  case (1 d)
  show ?case
  proof (cases "auth_simple_pack_unit_size < length d")
    case True
    have ne: "units (drop auth_simple_pack_unit_size d) \<noteq> []"
      using True by (subst units.simps) (simp add: auth_simple_pack_unit_size_def)
    from "1.prems" True ne have
      "u = take auth_simple_pack_unit_size d
        \<or> u \<in> set (butlast (units (drop auth_simple_pack_unit_size d)))"
      by (auto simp: units.simps[of d] split: if_splits)
    with "1.IH"[OF True] True show ?thesis
      by (auto simp: auth_simple_pack_unit_size_def)
  next
    case False
    with "1.prems" show ?thesis
      by (simp add: units.simps[of d] split: if_splits)
  qed
qed

lemma units_count: "length (units d) = (length d + 1999) div 2000"
proof (induction d rule: units.induct)
  case (1 d)
  show ?case
  proof (cases "auth_simple_pack_unit_size < length d")
    case True
    then have t: "2000 < length d" by (simp add: auth_simple_pack_unit_size_def)
    have "length (units d) = Suc (length (units (drop auth_simple_pack_unit_size d)))"
      using True by (simp add: units.simps[of d])
    also have "\<dots> = Suc ((length d - 2000 + 1999) div 2000)"
      using "1.IH"[OF True] by (simp add: auth_simple_pack_unit_size_def)
    also have "\<dots> = (length d - 2000 + 1999 + 2000) div 2000"
      by (simp only: div_add_self2)
    also have "length d - 2000 + 1999 + 2000 = length d + 1999" using t by simp
    finally show ?thesis .
  next
    case False
    then have f: "length d \<le> 2000" by (simp add: auth_simple_pack_unit_size_def)
    show ?thesis
    proof (cases "d = []")
      case True
      then show ?thesis by (simp add: units_Nil)
    next
      case ne: False
      then have "Suc 0 \<le> length d" by (cases d) simp_all
      with f have "(length d + 1999) div 2000 = 1"
        by (intro div_nat_eqI) simp_all
      with False ne show ?thesis by (simp add: units.simps[of d])
    qed
  qed
qed

lemma length_pack_each: "length (fst (pack_each ds full server l r)) = length ds"
  by (induction ds arbitrary: l r) (simp_all add: split_beta)

lemma pack_data_local:
  "fst (snd (auth_aes128_sha1_pack_data d full server l r)) = l\<lparr>pack_id := pack_id l + 1\<rparr>"
  by (simp add: pack_data_layout Let_def split: prod.splits)

lemma pack_each_local:
  "fst (snd (pack_each ds full server l r)) = l\<lparr>pack_id := pack_id l + of_nat (length ds)\<rparr>"
proof (induction ds arbitrary: l r)
  case Nil
  then show ?case by simp
next
  case (Cons d ds)
  obtain c l1 r1 where p: "auth_aes128_sha1_pack_data d full server l r = (c, l1, r1)"
    by (cases "auth_aes128_sha1_pack_data d full server l r")
  have l1: "l1 = l\<lparr>pack_id := pack_id l + 1\<rparr>" using pack_data_local[of d full server l r] p by simp
  show ?case using Cons.IH[of l1 r1]
    by (simp add: p l1 split_beta add.assoc)
qed

lemma pack_remainder_units:
  "pack_remainder data full server l r = pack_each (units data) full server l r"
proof (induction data full server l r rule: pack_units.induct)
  case (1 data full server l r)
  show ?case
  proof (cases "auth_simple_pack_unit_size < length data")
    case True
    obtain c l1 r1 where p:
      "auth_aes128_sha1_pack_data (take auth_simple_pack_unit_size data) full server l r
         = (c, l1, r1)"
      by (cases "auth_aes128_sha1_pack_data (take auth_simple_pack_unit_size data) full server l r")
    have ih: "pack_remainder (drop auth_simple_pack_unit_size data) full server l1 r1
        = pack_each (units (drop auth_simple_pack_unit_size data)) full server l1 r1"
      using "1.IH"[OF True p[symmetric] refl] by simp
    have u: "units data = take auth_simple_pack_unit_size data
        # units (drop auth_simple_pack_unit_size data)"
      using True by (subst units.simps) simp
    have "pack_remainder data full server l r =
        (case pack_remainder (drop auth_simple_pack_unit_size data) full server l1 r1 of
           (cs, l2, r2) \<Rightarrow> (c # cs, l2, r2))"
      unfolding pack_remainder_def
      using True
      by (subst pack_units.simps) (simp add: p split: prod.splits)
    then show ?thesis by (simp add: u p ih)
  next
    case False
    then have pu: "pack_units data full server l r = ([], data, l, r)"
      by (subst pack_units.simps) simp
    show ?thesis
    proof (cases "data = []")
      case True
      with pu have "pack_units [] full server l r = ([], [], l, r)" by simp
      with True show ?thesis
        by (simp add: pack_remainder_def units_Nil)
    next
      case ne: False
      have u: "units data = [data]" using False ne by (subst units.simps) simp
      show ?thesis using ne by (simp add: pack_remainder_def pu u split: prod.splits)
    qed
  qed
qed

section \<open>The chunks of the first call\<close>

lemma resolve_user_key_Some:
  assumes "param_fits server"
  shows "\<exists>l1 r1. resolve_user_key server l r = Some (l1, r1)"
proof (cases "param server")
  case None
  then show ?thesis
    by (simp add: resolve_user_key_def split_beta)
next
  case (Some p)
  with assms show ?thesis
    by (auto simp: resolve_user_key_def param_fits_def Let_def split_beta)
qed

lemma pack_auth_data_Some:
  assumes "param_fits server"
  shows "\<exists>c g1 l1 r1. auth_aes128_sha1_pack_auth_data g server l data ext r = Some (c, g1, l1, r1)"
proof -
  define r1 where "r1 = snd (xorshift128plus r)"
  define n where "n = auth_rand_len (length data) r"
  have x: "xorshift128plus r = (xs_out r (xs_pos r), r1)"
    by (simp add: r1_def xorshift128plus_def)
  have n: "(if 400 < length data then unat (xs_out r (xs_pos r) AND 0x1FF)
            else unat (xs_out r (xs_pos r) AND 0x3FF)) = n"
    by (simp add: n_def auth_rand_len_def)
  obtain rnd r2 where rb: "rand_bytes n r1 = (rnd, r2)" by (cases "rand_bytes n r1")
  obtain g' r3 where b: "bump_connection_id g r2 = (g', r3)"
    by (cases "bump_connection_id g r2")
  obtain l1 r4 where ru: "resolve_user_key server l r3 = Some (l1, r4)"
    using resolve_user_key_Some[OF assms] by blast
  show ?thesis
    unfolding auth_aes128_sha1_pack_auth_data_def Let_def x prod.case n rb b ru option.case
    by (simp add: split_beta)
qed

text \<open>
  Claim C4.  On a non-empty input with \<open>has_sent_header = 0\<close> (and a parameter that
  fits the parser's arrays) the client pre-encrypt packs the first \<open>min 1200 |s|\<close> bytes
  as the first chunk and the remainder as data chunks whose payloads are the units of the
  remainder: every unit but the last has exactly 2000 bytes, the last has 1 to 2000, and
  together they are the remainder.  The number of chunks is
  \<open>1 + \<lceil>(|s| - head_size) / 2000\<rceil>\<close>; afterwards \<open>last_data_len\<close> is \<open>|s|\<close> and
  \<open>has_sent_header\<close> is set.
\<close>

theorem first_call_chunks:
  assumes "s \<noteq> []" and "has_sent_header l = 0" and "param_fits server"
  shows "\<exists>c g1 l1 r1 l'.
     (let h = min 1200 (length s);
          us = units (drop h s);
          rest = pack_each us (length s) server (l1\<lparr>has_sent_header := 1\<rparr>) r1
      in auth_aes128_sha1_pack_auth_data g server l (take h s) ext r = Some (c, g1, l1, r1)
       \<and> client_pre_encrypt_packs server ext s (g, l, r)
           = Some (c # fst rest, g1, l', snd (snd rest))
       \<and> concat us = drop h s
       \<and> (\<forall>u \<in> set (butlast us). length u = 2000)
       \<and> (\<forall>u \<in> set us. 0 < length u \<and> length u \<le> 2000)
       \<and> length (c # fst rest) = 1 + (length s - h + 1999) div 2000
       \<and> last_data_len l' = int (length s) \<and> has_sent_header l' = 1)"
proof -
  define h where "h = min 1200 (length s)"
  obtain c g1 l1 r1 where
    p: "auth_aes128_sha1_pack_auth_data g server l (take h s) ext r = Some (c, g1, l1, r1)"
    using pack_auth_data_Some[OF assms(3)] by blast
  define us where "us = units (drop h s)"
  define rest where "rest = pack_each us (length s) server (l1\<lparr>has_sent_header := 1\<rparr>) r1"
  define l' where "l' = (fst (snd rest))\<lparr>last_data_len := int (length s)\<rparr>"
  have s0: "0 < length s" using assms(1) by simp
  have e: "client_pre_encrypt_packs server ext s (g, l, r)
      = Some (c # fst rest, g1, l', snd (snd rest))"
    unfolding pre_encrypt_packs_first[OF s0 assms(2)] h_def[symmetric] p
    by (simp add: pack_remainder_units us_def[symmetric] rest_def[symmetric] l'_def split_beta)
  have n: "length (c # fst rest) = 1 + (length s - h + 1999) div 2000"
    by (simp add: rest_def length_pack_each us_def units_count)
  have u1: "concat us = drop h s" by (simp add: us_def units_concat)
  have u2: "\<forall>u \<in> set (butlast us). length u = 2000"
    using units_butlast by (auto simp: us_def)
  have u3: "\<forall>u \<in> set us. 0 < length u \<and> length u \<le> 2000"
    using units_sizes by (auto simp: us_def)
  have ld: "last_data_len l' = int (length s)" by (simp add: l'_def)
  have hs: "has_sent_header l' = 1" by (simp add: l'_def rest_def pack_each_local)
  have body: "(let h = min 1200 (length s);
          us = units (drop h s);
          rest = pack_each us (length s) server (l1\<lparr>has_sent_header := 1\<rparr>) r1
      in auth_aes128_sha1_pack_auth_data g server l (take h s) ext r = Some (c, g1, l1, r1)
       \<and> client_pre_encrypt_packs server ext s (g, l, r)
           = Some (c # fst rest, g1, l', snd (snd rest))
       \<and> concat us = drop h s
       \<and> (\<forall>u \<in> set (butlast us). length u = 2000)
       \<and> (\<forall>u \<in> set us. 0 < length u \<and> length u \<le> 2000)
       \<and> length (c # fst rest) = 1 + (length s - h + 1999) div 2000
       \<and> last_data_len l' = int (length s) \<and> has_sent_header l' = 1)"
    unfolding Let_def h_def[symmetric] us_def[symmetric] rest_def[symmetric]
    using p e n u1 u2 u3 ld hs by (intro conjI)
  show ?thesis
    by (rule exI[of _ c], rule exI[of _ g1], rule exI[of _ l1], rule exI[of _ r1],
        rule exI[of _ l'], rule body)
qed


theorem first_call_chunks_witness:
  "map_option (length \<circ> fst)
     (client_pre_encrypt_packs sample_server sample_ext (replicate 3300 7)
        (sample_global, sample_local, sample_rand)) = Some 3
   \<and> map_option (last_data_len \<circ> fst \<circ> snd \<circ> snd)
     (client_pre_encrypt_packs sample_server sample_ext (replicate 3300 7)
        (sample_global, sample_local, sample_rand)) = Some 3300"
proof -
  have a: "replicate 3300 (7 :: byte) \<noteq> []" by simp
  have b: "has_sent_header sample_local = 0"
    by (simp add: sample_local_def auth_aes128_md5_new_obfs_def auth_simple_local_data_init_def)
  have c: "param_fits sample_server" by (simp add: param_fits_def sample_server_def)
  from first_call_chunks [OF a b c, of sample_global sample_ext sample_rand]
  show ?thesis by (auto simp: Let_def)
qed

section \<open>The length field of the chunks\<close>

lemma pack_data_le16:
  assumes "length data \<le> 2000"
  shows "le16 (fst (auth_aes128_sha1_pack_data data full server l r))
           = length (fst (auth_aes128_sha1_pack_data data full server l r))
         \<and> length data + 9 \<le> length (fst (auth_aes128_sha1_pack_data data full server l r))"
proof -
  obtain g r1 where g: "get_rand_len (length data) full l server r = (g, r1)"
    by (cases "get_rand_len (length data) full l server r")
  obtain rnd r2 where rnd: "rand_bytes (g + 1) r1 = (rnd, r2)"
    by (cases "rand_bytes (g + 1) r1")
  have lr: "length rnd = g + 1" using rnd by (auto simp: rand_bytes_def)
  have gle: "g \<le> 1023" using get_rand_len_le[of "length data" full l server r] g by simp
  define c where "c = fst (auth_aes128_sha1_pack_data data full server l r)"
  have c: "c = frame_body l rnd data @ filled 4 (hmac l (frame_body l rnd data) (pack_key l))"
    using rnd by (simp add: c_def pack_data_layout g Let_def)
  have len: "length c = g + 1 + length data + 8"
    using length_frame_body[of rnd l data] lr by (simp add: c)
  have "g + 1 + length data + 8 < 65536" using gle assms by simp
  from le16_header[OF this] have "le16 c = g + 1 + length data + 8"
    by (simp add: c frame_body_def Let_def lr)
  with len show ?thesis by (simp add: c_def)
qed

lemma pack_each_le16:
  assumes "\<forall>d \<in> set ds. length d \<le> 2000"
  shows "\<forall>c \<in> set (fst (pack_each ds full server l r)). le16 c = length c \<and> 9 \<le> length c"
  using assms
proof (induction ds arbitrary: l r)
  case Nil
  then show ?case by simp
next
  case (Cons d ds)
  obtain c l1 r1 where p: "auth_aes128_sha1_pack_data d full server l r = (c, l1, r1)"
    by (cases "auth_aes128_sha1_pack_data d full server l r")
  from Cons.prems have d: "length d \<le> 2000" by simp
  from pack_data_le16[OF d, of full server l r] p
  have c: "le16 c = length c \<and> 9 \<le> length c" by simp
  from Cons.IH[of l1 r1] Cons.prems c show ?case
    by (simp add: p split_beta)
qed

text \<open>
  Claim C2, as amended.  Every data chunk the client pre-encrypt emits (every chunk but
  the first one of the first call) starts with its own length as a little-endian 16-bit
  number.
\<close>

theorem data_chunk_length_field:
  assumes "client_pre_encrypt_packs server ext s (g, l, r) = Some (cs, g', l', r')"
  shows "\<forall>c \<in> set (if s \<noteq> [] \<and> has_sent_header l = 0 then tl cs else cs).
           le16 c = length c"
proof -
  have u: "\<forall>d \<in> set (units x). length d \<le> 2000" for x
    using units_sizes by blast
  show ?thesis
  proof (cases "0 < length s \<and> has_sent_header l = 0")
    case False
    from assms have "cs = fst (pack_each (units s) (length s) server l r)"
      unfolding pre_encrypt_packs_later[OF False] pack_remainder_units
      by (simp add: split_beta)
    with pack_each_le16[OF u] False show ?thesis by auto
  next
    case True
    then have t: "0 < length s" "has_sent_header l = 0" by simp_all
    from assms obtain c g1 l1 r1 where
      "cs = c # fst (pack_each (units (drop (min 1200 (length s)) s)) (length s) server
                 (l1\<lparr>has_sent_header := 1\<rparr>) r1)"
      unfolding pre_encrypt_packs_first[OF t] pack_remainder_units
      by (auto simp: split_beta split: option.splits)
    with pack_each_le16[OF u] True show ?thesis by auto
  qed
qed


theorem data_chunk_length_field_witness:
  "map_option (list_all (\<lambda>c. le16 c = length c) \<circ> fst)
     (client_pre_encrypt_packs sample_server sample_ext (replicate 2500 7)
        (sample_global, sample_local\<lparr>has_sent_header := 1\<rparr>, sample_rand)) = Some True"
proof -
  have n: "\<not> (0 < length (replicate 2500 (7 :: byte))
             \<and> has_sent_header (sample_local\<lparr>has_sent_header := 1\<rparr>) = 0)"
    by simp
  obtain cs g' l' r' where e:
    "client_pre_encrypt_packs sample_server sample_ext (replicate 2500 7)
        (sample_global, sample_local\<lparr>has_sent_header := 1\<rparr>, sample_rand) = Some (cs, g', l', r')"
    unfolding pre_encrypt_packs_later[OF n] by (auto simp: split_beta)
  from data_chunk_length_field [OF e] have "list_all (\<lambda>c. le16 c = length c) cs"
    by (simp add: list_all_iff)
  with e show ?thesis by simp
qed

text \<open>
  The claim as stated includes the first chunk.  Its first byte is random and its second
  the first byte of a digest: for the one-byte payload of the sample run the chunk has 36
  bytes and its first two bytes read 3840.
\<close>

theorem first_chunk_length_field_counterexample:
  "map_option (map le16 \<circ> fst)
     (client_pre_encrypt_packs sample_server sample_ext [1]
        (sample_global, sample_local, sample_rand)) = Some [3840]
   \<and> map_option (map length \<circ> fst)
     (client_pre_encrypt_packs sample_server sample_ext [1]
        (sample_global, sample_local, sample_rand)) = Some [36]"
proof -
  have "map_option ((\<lambda>cs. (map le16 cs, map length cs)) \<circ> fst)
     (client_pre_encrypt_packs sample_server sample_ext [1]
        (sample_global, sample_local, sample_rand)) = Some ([3840], [36])"
    by code_simp
  then show ?thesis by (auto simp: map_option_case split: option.splits)
qed

section \<open>Frames: what is packed is what the receiver accepts\<close>

lemma or_shift8:
  assumes "b < 256"
  shows "push_bit 8 (a::nat) OR b = a * 256 + b"
proof -
  have b: "take_bit 8 b = b" using assms by (simp add: take_bit_nat_eq_self_iff)
  have "push_bit 8 a AND take_bit 8 b = 0"
    by (auto simp: bit_eq_iff bit_simps)
  then have "push_bit 8 a + take_bit 8 b = push_bit 8 a OR take_bit 8 b"
    by (rule disjunctive_add_eq_or)
  then show ?thesis by (simp add: b push_bit_eq_mult)
qed

lemma unat_byte_of_nat: "n < 256 \<Longrightarrow> unat (of_nat n :: byte) = n"
  by (simp add: unat_of_nat take_bit_nat_eq_self_iff)

lemma split_le16:
  assumes "S < 65536"
  shows "unat (of_nat (S div 256) :: byte) * 256 + unat (of_nat S :: byte) = S"
proof -
  have "S div 256 < 256" using assms by (simp add: div_less_iff_less_mult)
  then have "unat (of_nat (S div 256) :: byte) = S div 256"
    by (rule unat_byte_of_nat)
  moreover have "unat (of_nat S :: byte) = S mod 256"
    by (simp add: unat_of_nat take_bit_eq_mod)
  ultimately show ?thesis by simp
qed

lemma pack_key_plain:
  "length (user_key_bytes l) + 4 < 256 \<Longrightarrow> pack_key l = user_key_bytes l @ memintcopy_lt (pack_id l)"
  by (simp add: pack_key_def user_key_len_def Let_def)

lemma nth_rand_marker_small:
  assumes "length rnd = n" "0 < n" "n < 128"
  shows "rand_marker n rnd ! 0 = of_nat n"
  using assms by (simp add: rand_marker_def)

lemma nth_rand_marker_big:
  assumes "length rnd = n" "128 \<le> n"
  shows "rand_marker n rnd ! 0 = 0xFF" "rand_marker n rnd ! 1 = of_nat n"
    "rand_marker n rnd ! 2 = of_nat (n div 256)"
  using assms by (simp_all add: rand_marker_def)

lemma frame_of_layout:
  assumes k: "length (user_key_bytes l) + 4 < 256"
    and lr: "length rnd = n" and n0: "0 < n" and n1: "n \<le> 1024"
    and ld: "length d \<le> 2000"
  shows "frame_of (hmac l) (user_key_bytes l) (pack_id l)
           (frame_body l rnd d @ filled 4 (hmac l (frame_body l rnd d) (pack_key l))) d"
proof -
  define S where "S = n + length d + 8"
  define lo :: byte where "lo = of_nat S"
  define hi :: byte where "hi = of_nat (S div 256)"
  define kk where "kk = user_key_bytes l @ memintcopy_lt (pack_id l)"
  define tag2 where "tag2 = filled 2 (hmac l [lo, hi] kk)"
  define m where "m = rand_marker n rnd"
  define body where "body = [lo, hi] @ tag2 @ m @ d"
  define tag4 where "tag4 = filled 4 (hmac l body kk)"
  define f where "f = body @ tag4"
  have pk: "pack_key l = kk" using pack_key_plain[OF k] by (simp add: kk_def)
  have fb: "frame_body l rnd d = body"
    by (simp add: frame_body_def Let_def lr S_def lo_def hi_def tag2_def m_def body_def pk)
  have lt2: "length tag2 = 2" by (simp add: tag2_def)
  have lt4: "length tag4 = 4" by (simp add: tag4_def)
  have lm: "length m = n" using length_rand_marker[OF lr n0] by (simp add: m_def)
  have lb: "length body = S - 4" by (simp add: body_def lt2 lm S_def)
  have lf: "length f = S" by (simp add: f_def lb lt4 S_def)
  have S8: "8 \<le> S" "S < 8192" "S < 65536" using n1 ld by (simp_all add: S_def)
  obtain t0 t1 where t: "tag2 = [t0, t1]"
    using lt2 by (cases tag2; cases "tl tag2") auto
  have f0: "f ! 0 = lo" "f ! Suc 0 = hi" by (simp_all add: f_def body_def)
  have len: "push_bit 8 (unat (f ! 1)) + unat (f ! 0) = S"
    using split_le16[OF S8(3)] by (simp add: f0 push_bit_eq_mult lo_def hi_def)
  have tk2: "take 2 f = [lo, hi]" by (simp add: f_def body_def)
  have dr2: "take 2 (drop 2 f) = tag2" by (simp add: f_def body_def t)
  have tkb: "take (S - 4) f = body" using lb by (simp add: f_def)
  have drb: "drop (S - 4) f = tag4" using lb by (simp add: f_def)
  define h4 where "h4 = [lo, hi] @ tag2"
  have lh4: "length h4 = 4" by (simp add: h4_def lt2)
  have fh: "f = h4 @ m @ d @ tag4" by (simp add: f_def body_def h4_def)
  have fm: "f ! (4 + i) = (m @ d @ tag4) ! i" for i
    using nth_append_length_plus[of h4 "m @ d @ tag4" i] by (simp only: fh lh4)
  have f4: "f ! 4 = m ! 0" using fm[of 0] n0 lm by (simp add: nth_append)
  have pos: "(if unat (f ! 4) < 255 then unat (f ! 4) + 4
              else (push_bit 8 (unat (f ! 6)) OR unat (f ! 5)) + 4) = n + 4"
  proof (cases "n < 128")
    case True
    then have "unat (f ! 4) = n"
      using nth_rand_marker_small[OF lr n0 True] unat_byte_of_nat[of n]
      by (simp add: f4 m_def)
    with True show ?thesis by simp
  next
    case False
    then have b: "128 \<le> n" by simp
    have "f ! 5 = m ! 1" "f ! 6 = m ! 2"
      using fm[of 1] fm[of 2] b lm by (simp_all add: nth_append)
    then have v: "f ! 4 = 0xFF" "f ! 5 = of_nat n" "f ! 6 = of_nat (n div 256)"
      using nth_rand_marker_big[OF lr b] by (simp_all add: f4 m_def)
    have n16: "n < 65536" using n1 by simp
    have "push_bit 8 (unat (of_nat (n div 256) :: byte)) OR unat (of_nat n :: byte) = n"
      using or_shift8[of "unat (of_nat n :: byte)" "unat (of_nat (n div 256) :: byte)"]
        split_le16[OF n16]
      by (simp add: unat_of_nat)
    then show ?thesis by (simp add: v)
  qed
  have "drop (n + 4) f = d @ tag4"
    by (simp add: fh lh4 lm)
  then have dat: "take (S - (n + 4) - 4) (drop (n + 4) f) = d"
    by (simp add: S_def)
  have "frame_of (hmac l) (user_key_bytes l) (pack_id l) f d"
    unfolding frame_of_def Let_def pos lf kk_def[symmetric]
    using S8 len tk2 dr2 tkb drb dat
    by (simp add: tag2_def tag4_def S_def)
  then show ?thesis by (simp add: f_def fb tag4_def pk)
qed

lemma user_key_bytes_pack_id [simp]:
  "user_key_bytes (l\<lparr>pack_id := x\<rparr>) = user_key_bytes l"
  by (simp add: user_key_bytes_def)

lemma pack_data_frame:
  assumes "length (user_key_bytes l) + 4 < 256" and "length d \<le> 2000"
  shows "frame_of (hmac l) (user_key_bytes l) (pack_id l)
           (fst (auth_aes128_sha1_pack_data d full server l r)) d"
proof -
  obtain g r1 where g: "get_rand_len (length d) full l server r = (g, r1)"
    by (cases "get_rand_len (length d) full l server r")
  obtain rnd r2 where rnd: "rand_bytes (g + 1) r1 = (rnd, r2)"
    by (cases "rand_bytes (g + 1) r1")
  have lr: "length rnd = g + 1" using rnd by (auto simp: rand_bytes_def)
  have gle: "g + 1 \<le> 1024" using get_rand_len_le[of "length d" full l server r] g by simp
  have c: "fst (auth_aes128_sha1_pack_data d full server l r)
      = frame_body l rnd d @ filled 4 (hmac l (frame_body l rnd d) (pack_key l))"
    using rnd by (simp add: pack_data_layout g Let_def)
  show ?thesis
    unfolding c by (rule frame_of_layout[OF assms(1) lr _ gle assms(2)]) simp
qed

lemma pack_each_frames:
  assumes "length (user_key_bytes l) + 4 < 256" and "\<forall>d \<in> set ds. length d \<le> 2000"
  shows "frames_ok (hmac l) (user_key_bytes l) (pack_id l)
           (fst (pack_each ds full server l r)) ds"
  using assms
proof (induction ds arbitrary: l r)
  case Nil
  then show ?case by simp
next
  case (Cons d ds)
  obtain c l1 r1 where p: "auth_aes128_sha1_pack_data d full server l r = (c, l1, r1)"
    by (cases "auth_aes128_sha1_pack_data d full server l r")
  have l1: "l1 = l\<lparr>pack_id := pack_id l + 1\<rparr>"
    using pack_data_local[of d full server l r] p by simp
  from Cons.prems have d: "length d \<le> 2000" by simp
  have f: "frame_of (hmac l) (user_key_bytes l) (pack_id l) c d"
    using pack_data_frame[OF Cons.prems(1) d, of full server r] p by simp
  have "frames_ok (hmac l1) (user_key_bytes l1) (pack_id l1)
          (fst (pack_each ds full server l1 r1)) ds"
    using Cons.prems by (intro Cons.IH) (simp_all add: l1)
  with f show ?case by (simp add: p l1 split_beta)
qed

section \<open>The receiving loop on well-formed frames\<close>

lemma loop_whole_frame:
  assumes fr: "frame_of (hmac l) (user_key_bytes l) (recv_id l) f d"
    and rb: "recv_buffer l = f @ rest"
  shows "post_decrypt_loop l out =
     post_decrypt_loop (l\<lparr>recv_id := recv_id l + 1, recv_buffer := rest\<rparr>) (out @ d)"
proof -
  define k where "k = user_key_bytes l @ memintcopy_lt (recv_id l)"
  define len where "len = length f"
  define pos where "pos = (if unat (f ! 4) < 255 then unat (f ! 4) + 4
                 else (push_bit 8 (unat (f ! 6)) OR unat (f ! 5)) + 4)"
  define b where "b = f @ rest"
  from fr have F: "8 \<le> len" "len < 8192" "push_bit 8 (unat (f ! 1)) + unat (f ! 0) = len"
    "filled 2 (hmac l (take 2 f) k) = take 2 (drop 2 f)"
    "filled 4 (hmac l (take (len - 4) f) k) = drop (len - 4) f"
    "pos + 4 \<le> len" "d = take (len - pos - 4) (drop pos f)"
    unfolding frame_of_def Let_def k_def[symmetric] len_def[symmetric] pos_def[symmetric]
    by simp_all
  have nth: "b ! i = f ! i" if "i < 8" for i
    using that F(1) by (simp add: b_def nth_append len_def)
  have n: "b ! 0 = f ! 0" "b ! 1 = f ! 1" "b ! 4 = f ! 4" "b ! 5 = f ! 5" "b ! 6 = f ! 6"
    by (simp_all add: nth)
  have lb: "4 < length b" "\<not> length b < len" using F(1) by (simp_all add: b_def len_def)
  have t1: "take 2 b = take 2 f" using F(1) by (simp add: b_def len_def)
  have t2: "take 2 (drop 2 b) = take 2 (drop 2 f)" using F(1) by (simp add: b_def len_def)
  have t3: "take (len - 4) b = take (len - 4) f" by (simp add: b_def len_def)
  have t4: "take 4 (drop (len - 4) b) = drop (len - 4) f"
    using F(1) by (simp add: b_def len_def)
  have t5: "drop len b = rest" by (simp add: b_def len_def)
  have t6: "take (len - pos - 4) (drop pos b) = d"
    using F(6) by (simp add: b_def len_def F(7))
  have rbb: "recv_buffer l = b" by (simp add: rb b_def)
  have lenb: "push_bit 8 (unat (b ! 1)) + unat (b ! 0) = len" by (simp only: n F(3))
  have posb: "(if unat (b ! 4) < 255 then unat (b ! 4) + 4
                 else (push_bit 8 (unat (b ! 6)) OR unat (b ! 5)) + 4) = pos"
    by (simp only: n pos_def)
  have c1: "\<not> (8192 \<le> len \<or> len < 8)" using F(1,2) by simp
  have c2: "\<not> len < pos + 4" using F(6) by simp
  show ?thesis
    apply (subst post_decrypt_loop.simps)
    unfolding Let_def rbb k_def[symmetric] lenb posb
    apply (simp only: lb t1 t2 t3 t4 t5 t6 F(4) F(5) c1 c2 if_True if_False simp_thms)
    done
qed


lemma loop_part_of_frame:
  assumes fr: "frame_of (hmac l) (user_key_bytes l) (recv_id l) f d"
    and rb: "f = recv_buffer l @ nxt" and nxt: "nxt \<noteq> []"
  shows "post_decrypt_loop l out = Some (False, out, l)"
proof (cases "length (recv_buffer l) \<le> 4")
  case True
  then show ?thesis by (rule post_decrypt_loop_short)
next
  case False
  define k where "k = user_key_bytes l @ memintcopy_lt (recv_id l)"
  define len where "len = length f"
  define b where "b = recv_buffer l"
  from fr have F: "8 \<le> len" "len < 8192" "push_bit 8 (unat (f ! 1)) + unat (f ! 0) = len"
    "filled 2 (hmac l (take 2 f) k) = take 2 (drop 2 f)"
    unfolding frame_of_def Let_def k_def[symmetric] len_def[symmetric]
    by simp_all
  have lb: "4 < length b" using False by (simp add: b_def)
  have fb: "f = b @ nxt" by (simp add: rb b_def)
  have n: "b ! 0 = f ! 0" "b ! 1 = f ! 1" using lb by (auto simp: fb nth_append)
  have t1: "take 2 b = take 2 f" using lb by (simp add: fb)
  have t2: "take 2 (drop 2 b) = take 2 (drop 2 f)" using lb by (simp add: fb)
  have lenb: "push_bit 8 (unat (b ! 1)) + unat (b ! 0) = len" by (simp only: n F(3))
  have c1: "\<not> (8192 \<le> len \<or> len < 8)" using F(1,2) by simp
  have c2: "length b < len" using nxt by (simp add: len_def fb)
  show ?thesis
    apply (subst post_decrypt_loop.simps)
    unfolding Let_def b_def[symmetric] k_def[symmetric] lenb
    apply (simp only: lb t1 t2 F(4) c1 c2 if_True if_False simp_thms)
    done
qed

lemma frames_ok_lengths: "frames_ok h K i fs ds \<Longrightarrow> length fs = length ds"
  by (induction h K i fs ds rule: frames_ok.induct) simp_all

lemma frames_ok_drop:
  "frames_ok h K i fs ds \<Longrightarrow> frames_ok h K (i + of_nat j) (drop j fs) (drop j ds)"
proof (induction j arbitrary: i fs ds)
  case 0
  then show ?case by simp
next
  case (Suc j)
  show ?case
  proof (cases fs)
    case Nil
    with Suc.prems have "ds = []" by (cases ds) simp_all
    with Nil show ?thesis by simp
  next
    case (Cons f fs')
    with Suc.prems obtain d ds' where ds: "ds = d # ds'" by (cases ds) simp_all
    with Suc.prems Cons have "frames_ok h K (i + 1) fs' ds'" by simp
    from Suc.IH[OF this] show ?thesis by (simp add: Cons ds add.assoc)
  qed
qed

lemma frames_ok_hd_bound:
  "frames_ok h K i fs ds \<Longrightarrow> fs \<noteq> [] \<Longrightarrow> 8 \<le> length (hd fs) \<and> length (hd fs) < 8192"
  by (cases fs; cases ds) (simp_all add: frame_of_def Let_def)

lemma loop_frames:
  assumes "frames_ok (hmac l) (user_key_bytes l) (recv_id l) fs ds"
    and "concat fs = recv_buffer l @ nxt"
  shows "\<exists>j. j \<le> length fs
           \<and> length (concat (take j fs)) \<le> length (recv_buffer l)
           \<and> (j < length fs \<longrightarrow> length (recv_buffer l) < length (concat (take (Suc j) fs)))
           \<and> post_decrypt_loop l out =
               Some (False, out @ concat (take j ds),
                     l\<lparr>recv_id := recv_id l + of_nat j,
                       recv_buffer := drop (length (concat (take j fs))) (recv_buffer l)\<rparr>)"
  using assms
proof (induction fs arbitrary: ds l out)
  case Nil
  then have "recv_buffer l = []" by simp
  then have "post_decrypt_loop l out = Some (False, out, l)"
    by (simp add: post_decrypt_loop_short)
  then show ?case by (intro exI[of _ 0]) simp
next
  case (Cons f fs)
  from Cons.prems(1) obtain d ds' where ds: "ds = d # ds'" by (cases ds) simp_all
  from Cons.prems(1) ds have
    fr: "frame_of (hmac l) (user_key_bytes l) (recv_id l) f d" and
    ok: "frames_ok (hmac l) (user_key_bytes l) (recv_id l + 1) fs ds'"
    by simp_all
  define b where "b = recv_buffer l"
  have cc: "f @ concat fs = b @ nxt" using Cons.prems(2) by (simp add: b_def)
  show ?case
  proof (cases "length b < length f")
    case True
    have "take (length b) (f @ concat fs) = b" by (simp add: cc)
    with True have "take (length b) f = b" by simp
    then have "f = b @ drop (length b) f"
      by (metis append_take_drop_id)
    moreover have "drop (length b) f \<noteq> []" using True by simp
    ultimately have "post_decrypt_loop l out = Some (False, out, l)"
      using loop_part_of_frame[OF fr, of "drop (length b) f" out] by (simp add: b_def)
    with True show ?thesis
      by (intro exI[of _ 0]) (simp add: b_def)
  next
    case False
    define rest where "rest = drop (length f) b"
    have "take (length f) (b @ nxt) = f" by (simp add: cc[symmetric])
    with False have tf: "take (length f) b = f" by simp
    then have bf: "b = f @ rest" unfolding rest_def by (metis append_take_drop_id)
    have cr: "concat fs = rest @ nxt" using cc by (simp add: bf)
    define l1 where "l1 = l\<lparr>recv_id := recv_id l + 1, recv_buffer := rest\<rparr>"
    have step: "post_decrypt_loop l out = post_decrypt_loop l1 (out @ d)"
      unfolding l1_def by (rule loop_whole_frame[OF fr]) (simp add: bf[symmetric] b_def)
    have ok1: "frames_ok (hmac l1) (user_key_bytes l1) (recv_id l1) fs ds'"
      using ok by (simp add: l1_def user_key_bytes_def)
    have cr1: "concat fs = recv_buffer l1 @ nxt" using cr by (simp add: l1_def)
    from Cons.IH[OF ok1 cr1, of "out @ d"] obtain j where
      j: "j \<le> length fs" "length (concat (take j fs)) \<le> length rest"
        "j < length fs \<longrightarrow> length rest < length (concat (take (Suc j) fs))"
        "post_decrypt_loop l1 (out @ d) =
           Some (False, (out @ d) @ concat (take j ds'),
                 l1\<lparr>recv_id := recv_id l1 + of_nat j,
                   recv_buffer := drop (length (concat (take j fs))) rest\<rparr>)"
      by (auto simp: l1_def)
    have lb: "length b = length f + length rest" by (simp add: bf)
    have dr: "drop (length (concat (take j fs))) rest
        = drop (length f + length (concat (take j fs))) b"
      by (simp add: bf)
    have res: "post_decrypt_loop l out =
        Some (False, out @ concat (take (Suc j) ds),
              l\<lparr>recv_id := recv_id l + of_nat (Suc j),
                recv_buffer := drop (length (concat (take (Suc j) (f # fs)))) (recv_buffer l)\<rparr>)"
      unfolding step j(4) by (simp add: l1_def ds dr b_def add.assoc)
    show ?thesis
      using j(1,2,3) lb res by (intro exI[of _ "Suc j"]) (simp add: b_def)
  qed
qed

section \<open>The round trip of the data chunks\<close>

lemma concat_take_Suc:
  "j < length fs \<Longrightarrow> concat (take (Suc j) fs) = concat (take j fs) @ fs ! j"
  by (simp add: take_Suc_conv_app_nth)

lemma post_decrypt_all_frames:
  assumes "frames_ok (hmac l) (user_key_bytes l) (recv_id l) fs ds"
    and "recv_buffer l @ concat ps = concat fs"
    and "fs \<noteq> [] \<longrightarrow> length (recv_buffer l) < length (hd fs)"
    and "\<forall>p \<in> set ps. length p \<le> 8192"
  shows "\<exists>l'. post_decrypt_all l ps = Some (concat ds, l')
           \<and> l' = l\<lparr>recv_id := recv_id l + of_nat (length fs), recv_buffer := []\<rparr>"
  using assms
proof (induction ps arbitrary: l fs ds)
  case Nil
  have "fs = []"
  proof (rule ccontr)
    assume ne: "fs \<noteq> []"
    then obtain f fs' where f: "fs = f # fs'" by (cases fs) auto
    with Nil.prems(2,3) show False by simp
  qed
  with Nil.prems(1) have "ds = []" by (cases ds) simp_all
  with \<open>fs = []\<close> Nil.prems(2) show ?case by simp
next
  case (Cons p ps)
  define b where "b = recv_buffer l"
  define l0 where "l0 = l\<lparr>recv_buffer := b @ p\<rparr>"
  have bl: "length b < 8192"
  proof (cases "fs = []")
    case True
    with Cons.prems(2) show ?thesis by (simp add: b_def)
  next
    case False
    with frames_ok_hd_bound[OF Cons.prems(1) False] Cons.prems(3) show ?thesis
      by (simp add: b_def)
  qed
  have pl: "length p \<le> 8192" using Cons.prems(4) by simp
  have cap: "\<not> 16384 < length (recv_buffer l) + length p" using bl pl by (simp add: b_def)
  have ok0: "frames_ok (hmac l0) (user_key_bytes l0) (recv_id l0) fs ds"
    using Cons.prems(1) by (simp add: l0_def user_key_bytes_def)
  have c0: "concat fs = recv_buffer l0 @ concat ps"
    using Cons.prems(2) by (simp add: l0_def b_def)
  from loop_frames[OF ok0 c0, of "[]"] obtain j where
    j: "j \<le> length fs" "length (concat (take j fs)) \<le> length (b @ p)"
       "j < length fs \<longrightarrow> length (b @ p) < length (concat (take (Suc j) fs))"
       "post_decrypt_loop l0 [] =
          Some (False, concat (take j ds),
                l0\<lparr>recv_id := recv_id l0 + of_nat j,
                  recv_buffer := drop (length (concat (take j fs))) (b @ p)\<rparr>)"
    by (auto simp: l0_def)
  define l1 where "l1 = l0\<lparr>recv_id := recv_id l0 + of_nat j,
                  recv_buffer := drop (length (concat (take j fs))) (b @ p)\<rparr>"
  have j4: "post_decrypt_loop l0 [] = Some (False, concat (take j ds), l1)"
    using j(4) by (simp only: l1_def)
  have pd: "auth_aes128_sha1_client_post_decrypt l p
      = Some (int (length (concat (take j ds))), concat (take j ds), l1)"
    unfolding auth_aes128_sha1_client_post_decrypt_def Let_def b_def[symmetric]
      l0_def[symmetric] j4
    using cap by (simp add: b_def)
  have ok1: "frames_ok (hmac l1) (user_key_bytes l1) (recv_id l1) (drop j fs) (drop j ds)"
    using frames_ok_drop[OF Cons.prems(1), of j]
    by (simp add: l1_def l0_def user_key_bytes_def)
  define W where "W = b @ p"
  define X where "X = concat (take j fs)"
  define Y where "Y = concat (drop j fs)"
  have eq: "W @ concat ps = X @ Y"
    using Cons.prems(2) by (simp add: b_def W_def X_def Y_def flip: concat_append)
  have XW: "length X \<le> length W" using j(2) by (simp add: X_def W_def)
  have "drop (length X) (W @ concat ps) = Y" by (simp only: eq) simp
  moreover have "drop (length X) (W @ concat ps) = drop (length X) W @ concat ps"
    using XW by simp
  ultimately have "drop (length X) W @ concat ps = Y" by simp
  then have c1: "recv_buffer l1 @ concat ps = concat (drop j fs)"
    by (simp add: l1_def X_def W_def Y_def)
  have inv1: "drop j fs \<noteq> [] \<longrightarrow> length (recv_buffer l1) < length (hd (drop j fs))"
  proof
    assume "drop j fs \<noteq> []"
    then have jl: "j < length fs" by simp
    with j(3) have "length (b @ p) < length (concat (take j fs)) + length (fs ! j)"
      by (simp add: concat_take_Suc)
    with j(2) jl show "length (recv_buffer l1) < length (hd (drop j fs))"
      by (simp add: l1_def hd_drop_conv_nth)
  qed
  have ps: "\<forall>q \<in> set ps. length q \<le> 8192" using Cons.prems(4) by simp
  from Cons.IH[OF ok1 c1 inv1 ps] have
    ih: "post_decrypt_all l1 ps = Some (concat (drop j ds),
          l1\<lparr>recv_id := recv_id l1 + of_nat (length (drop j fs)), recv_buffer := []\<rparr>)"
    by simp
  have cd: "concat (take j ds) @ concat (drop j ds) = concat ds"
    by (simp flip: concat_append)
  have "of_nat j + of_nat (length fs - j) = (of_nat (length fs) :: 32 word)"
    using j(1) by (simp flip: of_nat_add)
  then have fin: "l1\<lparr>recv_id := recv_id l1 + of_nat (length fs - j), recv_buffer := []\<rparr>
      = l\<lparr>recv_id := recv_id l + of_nat (length fs), recv_buffer := []\<rparr>"
    by (simp add: l1_def l0_def add.assoc)
  show ?case
    by (simp add: pd ih cd fin)
qed


text \<open>
  Claim C1, as amended.  Once the header has been sent, every byte stream \<open>s\<close> packed by
  the client pre-encrypt comes back unchanged from the client post-decrypt of a receiver
  with the same digest and user key whose \<open>recv_id\<close> equals the sender's \<open>pack_id\<close>
  and whose receive buffer is empty, however the packed bytes are cut into pieces of at
  most 8192 bytes; no call reports an error, the receive buffer ends empty and
  \<open>recv_id\<close> ends at the sender's \<open>pack_id\<close>.  The pre-encrypt always returns here.
\<close>

theorem data_chunks_round_trip:
  assumes "has_sent_header ls \<noteq> 0"
    and "length (user_key_bytes ls) + 4 < 256"
    and "hmac lr = hmac ls" and "user_key_bytes lr = user_key_bytes ls"
    and "recv_id lr = pack_id ls" and "recv_buffer lr = []"
  shows "\<exists>wire g' ls' r'.
           auth_aes128_sha1_client_pre_encrypt server ext s (g, ls, r) = Some (wire, g', ls', r')
         \<and> pack_id ls' = pack_id ls + of_nat ((length s + 1999) div 2000)
         \<and> (\<forall>ps. concat ps = wire \<and> (\<forall>p \<in> set ps. length p \<le> 8192) \<longrightarrow>
                post_decrypt_all lr ps
                  = Some (s, lr\<lparr>recv_id := pack_id ls', recv_buffer := []\<rparr>))"
proof -
  have n: "\<not> (0 < length s \<and> has_sent_header ls = 0)" using assms(1) by simp
  define res where "res = pack_each (units s) (length s) server ls r"
  define cs where "cs = fst res"
  define ls' where "ls' = (fst (snd res))\<lparr>last_data_len := int (length s)\<rparr>"
  have pk: "client_pre_encrypt_packs server ext s (g, ls, r) = Some (cs, g, ls', snd (snd res))"
    unfolding pre_encrypt_packs_later[OF n] pack_remainder_units
    by (simp add: res_def cs_def ls'_def split_beta)
  then have pre: "auth_aes128_sha1_client_pre_encrypt server ext s (g, ls, r)
      = Some (concat cs, g, ls', snd (snd res))"
    by (simp add: auth_aes128_sha1_client_pre_encrypt_def)
  have u: "\<forall>d \<in> set (units s). length d \<le> 2000" using units_sizes by blast
  have fo: "frames_ok (hmac lr) (user_key_bytes lr) (recv_id lr) cs (units s)"
    using pack_each_frames[OF assms(2) u, of "length s" server r]
    by (simp add: cs_def res_def assms(3,4,5))
  have lc: "length cs = length (units s)" by (simp add: cs_def res_def length_pack_each)
  have pid: "pack_id ls' = pack_id ls + of_nat ((length s + 1999) div 2000)"
    by (simp add: ls'_def res_def pack_each_local units_count)
  have rt: "post_decrypt_all lr ps = Some (s, lr\<lparr>recv_id := pack_id ls', recv_buffer := []\<rparr>)"
    if c: "concat ps = concat cs" and sz: "\<forall>p \<in> set ps. length p \<le> 8192" for ps
  proof -
    have a: "recv_buffer lr @ concat ps = concat cs" using c assms(6) by simp
    have b: "cs \<noteq> [] \<longrightarrow> length (recv_buffer lr) < length (hd cs)"
      using frames_ok_hd_bound[OF fo] assms(6) by auto
    from post_decrypt_all_frames[OF fo a b sz] show ?thesis
      by (simp add: units_concat lc pid assms(5) units_count)
  qed
  show ?thesis
    apply (rule exI[of _ "concat cs"], rule exI[of _ g], rule exI[of _ ls'],
        rule exI[of _ "snd (snd res)"])
    using pre pid rt by blast
qed


theorem data_chunks_round_trip_witness:
  "map_option fst (auth_aes128_sha1_client_pre_encrypt sample_server sample_ext [7, 8, 9]
       (sample_global, sample_sender, sample_rand))
     = Some [12, 0, 25, 25, 1, 7, 8, 9, 100, 100, 100, 100]
   \<and> post_decrypt_all sample_sender [[12, 0, 25], [25, 1, 7, 8, 9, 100, 100], [100, 100]]
     = Some ([7, 8, 9], sample_sender\<lparr>recv_id := 2, recv_buffer := []\<rparr>)"
proof -
  have w: "map_option fst (auth_aes128_sha1_client_pre_encrypt sample_server sample_ext [7, 8, 9]
       (sample_global, sample_sender, sample_rand))
     = Some [12, 0, 25, 25, 1, 7, 8, 9, 100, 100, 100, 100]"
    by code_simp
  have f: "has_sent_header sample_sender \<noteq> 0" "length (user_key_bytes sample_sender) + 4 < 256"
    "recv_id sample_sender = pack_id sample_sender" "recv_buffer sample_sender = []"
    "pack_id sample_sender = 1"
    by (simp_all add: sample_sender_def sample_local_def auth_aes128_md5_new_obfs_def
        auth_simple_local_data_init_def user_key_bytes_def)
  from data_chunks_round_trip [OF f(1) f(2) refl refl f(3) f(4),
      of sample_server sample_ext "[7, 8, 9]" sample_global sample_rand]
  obtain wire g' ls' r' where
    pre: "auth_aes128_sha1_client_pre_encrypt sample_server sample_ext [7, 8, 9]
            (sample_global, sample_sender, sample_rand) = Some (wire, g', ls', r')"
    and pid: "pack_id ls' = pack_id sample_sender + of_nat ((length [7, 8, 9 :: byte] + 1999) div 2000)"
    and rt: "\<And>ps. concat ps = wire \<Longrightarrow> \<forall>p \<in> set ps. length p \<le> 8192 \<Longrightarrow>
            post_decrypt_all sample_sender ps
              = Some ([7, 8, 9], sample_sender\<lparr>recv_id := pack_id ls', recv_buffer := []\<rparr>)"
    by blast
  from pre w have wire: "wire = [12, 0, 25, 25, 1, 7, 8, 9, 100, 100, 100, 100]" by simp
  from pid f(5) have p2: "pack_id ls' = 2" by simp
  have "post_decrypt_all sample_sender [[12, 0, 25], [25, 1, 7, 8, 9, 100, 100], [100, 100]]
     = Some ([7, 8, 9], sample_sender\<lparr>recv_id := pack_id ls', recv_buffer := []\<rparr>)"
    by (rule rt) (simp_all add: wire)
  with w p2 show ?thesis by simp
qed

text \<open>
  The claim as stated starts the round trip with the first chunk.  The first chunk is not
  a frame of the receiving loop: in the sample run the packed one-byte stream makes the
  post-decrypt of the same instance report the error \<open>-1\<close>.
\<close>

theorem first_chunk_round_trip_counterexample:
  "pre_then_post sample_server sample_ext [1] (sample_global, sample_local, sample_rand)
     = Some (- 1, [0, 15, 15, 15, 15, 15, 15, 0, 0, 0, 0, 0, 0, 0, 0, 1, 2, 3, 4, 6, 0, 0,
                   0, 36, 0, 0, 0, 67, 67, 67, 67, 1, 167, 167, 167, 167])"
  by code_simp

section \<open>The first chunk\<close>

lemma memcpy_at_zeros:
  "length a = off \<Longrightarrow> memcpy_at (a @ replicate (length src + n) 0 @ c) off src
     = a @ src @ replicate n 0 @ c"
  by (simp add: memcpy_at_def)

lemma pack_auth_data_layout:
  assumes ru: "resolve_user_key server l
            (snd (bump_connection_id g
               (snd (rand_bytes (auth_rand_len (length data) r) (snd (xorshift128plus r))))))
          = Some (l1, r4)"
    and lu: "length (uid l1) = 4"
  shows "auth_aes128_sha1_pack_auth_data g server l data ext r =
    (let n = length data;
         rand_len = auth_rand_len n r;
         out_size = rand_len + 31 + n + 4;
         r2 = snd (rand_bytes rand_len (snd (xorshift128plus r)));
         rnd = fst (rand_bytes rand_len (snd (xorshift128plus r)));
         g1 = fst (bump_connection_id g r2);
         k = take ((length (iv server) + length (key server)) mod 256) (iv server @ key server);
         E = filled 16 (ss_aes_128_cbc ext (auth_plain g1 ext out_size rand_len)
                          (auth_enc_key ext l1));
         enc20 = uid l1 @ E;
         b0 = fst (rand_bytes 1 r4);
         front = b0 @ filled 6 (hmac l1 b0 k) @ (enc20 @ filled 4 (hmac l1 enc20 k)) @ rnd @ data
     in Some (front @ filled 4 (hmac l1 front (user_key_bytes l1)), g1, l1,
              snd (rand_bytes 1 r4)))"
proof -
  define n where "n = length data"
  define r1 where "r1 = snd (xorshift128plus r)"
  define R where "R = auth_rand_len n r"
  have x: "xorshift128plus r = (xs_out r (xs_pos r), r1)"
    by (simp add: r1_def xorshift128plus_def)
  have Rn: "(if 400 < length data then unat (xs_out r (xs_pos r) AND 0x1FF)
            else unat (xs_out r (xs_pos r) AND 0x3FF)) = R"
    by (simp add: R_def n_def auth_rand_len_def)
  have Rn': "(if 400 < n then unat (xs_out r (xs_pos r) AND 0x1FF)
            else unat (xs_out r (xs_pos r) AND 0x3FF)) = R"
    using Rn by (simp add: n_def)
  obtain rnd r2 where rb: "rand_bytes R r1 = (rnd, r2)" by (cases "rand_bytes R r1")
  have lr: "length rnd = R" using rb by (auto simp: rand_bytes_def)
  obtain g1 r3 where b: "bump_connection_id g r2 = (g1, r3)"
    by (cases "bump_connection_id g r2")
  have ru': "resolve_user_key server l r3 = Some (l1, r4)"
    using ru rb b by (simp add: R_def n_def r1_def)
  obtain b0 r5 where rb0: "rand_bytes 1 r4 = (b0, r5)" by (cases "rand_bytes 1 r4")
  have lb0: "length b0 = 1" using rb0 by (auto simp: rand_bytes_def)
  define S where "S = R + 16 + 4 + 4 + 7 + n + 4"
  define k where "k = take ((length (iv server) + length (key server)) mod 256)
                        (iv server @ key server)"
  define E where "E = filled 16 (ss_aes_128_cbc ext (auth_plain g1 ext S R) (auth_enc_key ext l1))"
  define enc20 where "enc20 = take 4 (uid l1) @ E"
  define encrypt where "encrypt = enc20 @ filled 4 (hmac l1 enc20 k)"
  define h6 where "h6 = filled 6 (hmac l1 b0 k)"
  define front where "front = b0 @ h6 @ encrypt @ rnd @ data"
  have le: "length encrypt = 24" using lu by (simp add: encrypt_def enc20_def E_def)
  have lh: "length h6 = 6" by (simp add: h6_def)
  have o1: "memcpy_at (replicate S 0) (R + 16 + 4 + 4 + 7 - R) rnd
      = replicate 31 0 @ rnd @ replicate (n + 4) 0"
    by (simp add: memcpy_at_def S_def lr)
  have o2: "memcpy_at (replicate 31 0 @ rnd @ replicate (n + 4) 0) 0 b0
      = b0 @ replicate 30 0 @ rnd @ replicate (n + 4) 0"
    using memcpy_at_zeros[of "[]" 0 b0 30 "rnd @ replicate (n + 4) 0"] lb0 by simp
  have t1: "take 1 (b0 @ replicate 30 0 @ rnd @ replicate (n + 4) 0) = b0"
    using lb0 by simp
  have o3: "memcpy_at (b0 @ replicate 30 0 @ rnd @ replicate (n + 4) 0) 1 h6
      = b0 @ h6 @ replicate 24 0 @ rnd @ replicate (n + 4) 0"
    using memcpy_at_zeros[of b0 1 h6 24 "rnd @ replicate (n + 4) 0"] lb0 lh by simp
  have o4: "memcpy_at (b0 @ h6 @ replicate 24 0 @ rnd @ replicate (n + 4) 0) 7 encrypt
      = b0 @ h6 @ encrypt @ rnd @ replicate (n + 4) 0"
    using memcpy_at_zeros[of "b0 @ h6" 7 encrypt 0 "rnd @ replicate (n + 4) 0"] lb0 lh le
    by simp
  have o5: "memcpy_at (b0 @ h6 @ encrypt @ rnd @ replicate (n + 4) 0) (R + 16 + 4 + 4 + 7) data
      = front @ replicate 4 0"
    using memcpy_at_zeros[of "b0 @ h6 @ encrypt @ rnd" "R + 31" data 4 "[]"] lb0 lh le lr
    by (simp add: front_def n_def add.commute)
  have lf: "length front = S - 4" using lb0 lh le lr by (simp add: front_def S_def n_def)
  have t5: "take (S - 4) (front @ replicate 4 0) = front" using lf by simp
  have o6: "memcpy_at (front @ replicate 4 0) (S - 4) t = front @ t" if "length t = 4" for t
    using memcpy_at_zeros[of front "S - 4" t 0 "[]"] that lf by simp
  have pl: "memintcopy_lt (time_now ext) @ take 4 (local_client_id g1)
       @ memintcopy_lt (connection_id g1)
       @ [of_nat S, of_nat (S div 256), of_nat R, of_nat (R div 256)] = auth_plain g1 ext S R"
    by (simp add: auth_plain_def)
  have ek: "filled 16 (bytes_to_key_with_size ext
           (take ((length (user_key_bytes l1) + 2) div 3 * 4)
              (std_base64_encode ext (user_key_bytes l1) @ replicate 256 0) @ salt l1) 16)
       = auth_enc_key ext l1"
    by (simp add: auth_enc_key_def Let_def)
  have "auth_aes128_sha1_pack_auth_data g server l data ext r =
      Some (front @ filled 4 (hmac l1 front (user_key_bytes l1)), g1, l1, r5)"
    unfolding auth_aes128_sha1_pack_auth_data_def Let_def x prod.case Rn Rn' rb b ru' option.case
      rb0 n_def[symmetric] S_def[symmetric] k_def[symmetric] pl ek E_def[symmetric]
      enc20_def[symmetric] encrypt_def[symmetric] o1 o2 t1 h6_def[symmetric] o3 o4 o5 t5
    by (simp only: o6[OF length_filled])
  moreover have "take 4 (uid l1) = uid l1" using lu by simp
  ultimately show ?thesis
    using rb b rb0
    by (simp add: Let_def n_def[symmetric] R_def[symmetric] r1_def[symmetric] S_def front_def
        h6_def encrypt_def enc20_def E_def k_def)
qed


lemma colon_split:
  assumes "0x3A \<notin> set u"
  shows "takeWhile (\<lambda>c. c \<noteq> 0x3A) (u @ 0x3A # k) = u"
    and "tl (dropWhile (\<lambda>c. c \<noteq> 0x3A) (u @ (0x3A :: byte) # k)) = k"
proof -
  have a: "\<And>x. x \<in> set u \<Longrightarrow> x \<noteq> 0x3A" using assms by auto
  show "takeWhile (\<lambda>c. c \<noteq> 0x3A) (u @ 0x3A # k) = u"
    using takeWhile_append2[of u "\<lambda>c. c \<noteq> 0x3A" "0x3A # k"] a by simp
  show "tl (dropWhile (\<lambda>c. c \<noteq> 0x3A) (u @ (0x3A :: byte) # k)) = k"
    using dropWhile_append2[of u "\<lambda>c. c \<noteq> 0x3A" "0x3A # k"] a by simp
qed

lemma resolve_user_key_colon:
  assumes "user_key l = None" and "param server = Some (u @ 0x3A # k)" and "0x3A \<notin> set u"
    and "param_fits server"
  shows "resolve_user_key server l r =
     Some (l\<lparr>uid := memintcopy_lt (word_of_int (strtol10 u)),
              user_key := Some (filled (hash_len l) (hash l k))\<rparr>, r)"
proof -
  from assms(2,4) colon_split[OF assms(3), of k] have "length u < 16" "length k < 128"
    by (simp_all add: param_fits_def)
  then show ?thesis
    using assms(1,2) colon_split[OF assms(3), of k]
    by (simp add: resolve_user_key_def Let_def)
qed

lemma resolve_user_key_plain:
  assumes "user_key l = None" and "\<forall>p. param server = Some p \<longrightarrow> 0x3A \<notin> set p"
  shows "resolve_user_key server l r =
     Some (l\<lparr>uid := fst (rand_bytes 4 r), user_key := Some (key server)\<rparr>,
           snd (rand_bytes 4 r))"
proof (cases "param server")
  case None
  with assms(1) show ?thesis by (simp add: resolve_user_key_def split_beta)
next
  case (Some p)
  with assms(2) have "0x3A \<notin> set p" by simp
  with Some assms(1) show ?thesis by (simp add: resolve_user_key_def split_beta)
qed

lemma strtol_digits_dec:
  "\<forall>c \<in> set s. isdigit_c c \<Longrightarrow> strtol_digits (int a) s = int (dec_acc a s)"
proof (induction s arbitrary: a)
  case Nil
  then show ?case by simp
next
  case (Cons c s)
  then have d: "isdigit_c c" and ds: "\<forall>c \<in> set s. isdigit_c c" by simp_all
  from d have "48 \<le> unat c" by (simp add: isdigit_c_def word_le_nat_alt)
  then have e: "int a * 10 + (uint c - 48) = int (a * 10 + (unat c - 48))"
    by (simp add: of_nat_diff)
  have "strtol_digits (int a) (c # s) = strtol_digits (int a * 10 + (uint c - 48)) s"
    using d by (simp only: strtol_digits.simps if_True)
  also have "\<dots> = strtol_digits (int (a * 10 + (unat c - 48))) s"
    by (simp only: e)
  also have "\<dots> = int (dec_acc (a * 10 + (unat c - 48)) s)"
    using ds by (rule Cons.IH)
  finally show ?case by (simp only: dec_acc.simps)
qed

lemma dec_acc_bound:
  "\<forall>c \<in> set s. isdigit_c c \<Longrightarrow> dec_acc a s < (a + 1) * 10 ^ length s"
proof (induction s arbitrary: a)
  case Nil
  then show ?case by simp
next
  case (Cons c s)
  then have "isdigit_c c" by simp
  then have "48 \<le> unat c \<and> unat c \<le> 57" by (simp add: isdigit_c_def word_le_nat_alt)
  then have "unat c - 48 \<le> 9" by arith
  then have "a * 10 + (unat c - 48) + 1 \<le> (a + 1) * 10" by simp
  then have B: "(a * 10 + (unat c - 48) + 1) * 10 ^ length s \<le> (a + 1) * 10 * 10 ^ length s"
    by (rule mult_le_mono1)
  from Cons have A: "dec_acc (a * 10 + (unat c - 48)) s
      < (a * 10 + (unat c - 48) + 1) * 10 ^ length s" by simp
  from A B have "dec_acc (a * 10 + (unat c - 48)) s < (a + 1) * 10 * 10 ^ length s"
    by (rule less_le_trans)
  moreover have "(a + 1) * 10 ^ length (c # s) = (a + 1) * 10 * 10 ^ length s"
    by (simp only: list.size power_Suc power_add power_one_right mult.assoc
          add_Suc_right add_0_right One_nat_def)
  ultimately show ?case by (simp only: dec_acc.simps)
qed


lemma strtol10_digits:
  assumes "\<forall>c \<in> set s. isdigit_c c" and "length s < 16"
  shows "strtol10 s = int (dec_value s)"
proof -
  have ns: "\<not> isspace_c c" "c \<noteq> 0x2D" "c \<noteq> 0x2B" if "isdigit_c c" for c
    using that by (auto simp: isdigit_c_def isspace_c_def word_le_nat_alt)
  have dw: "dropWhile isspace_c s = s"
    using assms(1) ns(1) by (cases s) auto
  have sg: "s \<noteq> [] \<Longrightarrow> hd s \<noteq> 0x2D \<and> hd s \<noteq> 0x2B"
    using assms(1) ns(2,3) by (cases s) auto
  have v: "strtol_digits 0 s = int (dec_value s)"
    using strtol_digits_dec[OF assms(1), of 0] by (simp add: dec_value_def)
  have "dec_value s < 10 ^ length s"
    using dec_acc_bound[OF assms(1), of 0] by (simp add: dec_value_def)
  also have "(10::nat) ^ length s \<le> 10 ^ 15"
    using assms(2) by (intro power_increasing) simp_all
  finally have "int (dec_value s) < 2 ^ 63" by simp
  then show ?thesis
    using sg by (cases "s = []") (simp_all add: strtol10_def Let_def dw v dec_value_def)
qed

lemma resolved_user_key:
  assumes uk: "user_key l = None" and pf: "param_fits server"
    and ru: "resolve_user_key server l r = Some (l1, r1)"
  shows "hmac l1 = hmac l" and "length (uid l1) = 4"
    and "\<And>u ks. param server = Some (u @ 0x3A # ks) \<Longrightarrow> 0x3A \<notin> set u \<Longrightarrow>
           uid l1 = memintcopy_lt (word_of_int (strtol10 u))
           \<and> ((\<forall>c \<in> set u. isdigit_c c) \<longrightarrow> uid l1 = memintcopy_lt (of_nat (dec_value u)))
           \<and> user_key l1 = Some (filled (hash_len l) (hash l ks))"
    and "(\<forall>p. param server = Some p \<longrightarrow> 0x3A \<notin> set p) \<Longrightarrow>
           uid l1 = fst (rand_bytes 4 r) \<and> user_key l1 = Some (key server)"
proof -
  have colon: "l1 = l\<lparr>uid := memintcopy_lt (word_of_int (strtol10 u)),
                      user_key := Some (filled (hash_len l) (hash l ks))\<rparr>
               \<and> length u < 16"
    if p: "param server = Some (u @ 0x3A # ks)" and nu: "0x3A \<notin> set u" for u ks
  proof -
    have "length u < 16"
      using pf p colon_split(1)[OF nu, of ks] by (simp add: param_fits_def)
    then show ?thesis
      using resolve_user_key_colon[OF uk p nu pf, of r] ru by simp
  qed
  have plain: "l1 = l\<lparr>uid := fst (rand_bytes 4 r), user_key := Some (key server)\<rparr>"
    if "\<forall>p. param server = Some p \<longrightarrow> 0x3A \<notin> set p"
    using resolve_user_key_plain[OF uk that, of r] ru by simp
  show "\<And>u ks. param server = Some (u @ 0x3A # ks) \<Longrightarrow> 0x3A \<notin> set u \<Longrightarrow>
           uid l1 = memintcopy_lt (word_of_int (strtol10 u))
           \<and> ((\<forall>c \<in> set u. isdigit_c c) \<longrightarrow> uid l1 = memintcopy_lt (of_nat (dec_value u)))
           \<and> user_key l1 = Some (filled (hash_len l) (hash l ks))"
  proof -
    fix u ks
    assume p: "param server = Some (u @ 0x3A # ks)" and nu: "0x3A \<notin> set u"
    note c = colon[OF p nu]
    have "uid l1 = memintcopy_lt (of_nat (dec_value u))" if "\<forall>c \<in> set u. isdigit_c c"
      using c strtol10_digits[OF that] by simp
    with c show "uid l1 = memintcopy_lt (word_of_int (strtol10 u))
           \<and> ((\<forall>c \<in> set u. isdigit_c c) \<longrightarrow> uid l1 = memintcopy_lt (of_nat (dec_value u)))
           \<and> user_key l1 = Some (filled (hash_len l) (hash l ks))"
      by simp
  qed
  show "(\<forall>p. param server = Some p \<longrightarrow> 0x3A \<notin> set p) \<Longrightarrow>
           uid l1 = fst (rand_bytes 4 r) \<and> user_key l1 = Some (key server)"
    using plain by simp
  show "hmac l1 = hmac l" and "length (uid l1) = 4"
  proof -
    consider p where "param server = Some p" "0x3A \<in> set p"
      | "\<forall>p. param server = Some p \<longrightarrow> 0x3A \<notin> set p"
      by blast
    then have "hmac l1 = hmac l \<and> length (uid l1) = 4"
    proof cases
      case 1
      from split_list_first[OF 1(2)] obtain u ks where "p = u @ 0x3A # ks" "0x3A \<notin> set u"
        by blast
      with 1(1) colon[of u ks] show ?thesis by (simp add: memintcopy_lt_def)
    next
      case 2
      with plain show ?thesis by simp
    qed
    then show "hmac l1 = hmac l" and "length (uid l1) = 4" by simp_all
  qed
qed

text \<open>
  Claim C3.  The initial auth-data chunk for a payload of \<open>n\<close> bytes, packed by an instance
  whose user key is not resolved yet: \<open>rand_len\<close> is the random number masked by
  \<open>0x1FF\<close> when \<open>n > 400\<close> and by \<open>0x3FF\<close> otherwise, the payload sits at
  \<open>data_offset = rand_len + 31\<close> and the chunk has \<open>out_size = data_offset + n + 4\<close>
  bytes.  Bytes 7 to 31 are the four bytes of the uid, the 16-byte block that AES-128-CBC
  gives for the 16-byte plain block, and the first four bytes of the digest of these 20
  bytes keyed by the server's iv followed by its key (the key length is kept in a
  \<^verbatim>\<open>uint8_t\<close>, so this is the whole of it when both have fewer than 256 bytes together).
  A parameter with a colon, \<open>u:ks\<close>, gives the uid \<open>strtol(u)\<close> as a little-endian
  32-bit value, which is the decimal value of \<open>u\<close> when \<open>u\<close> is made of digits, and the
  user key \<open>hash(ks)\<close> cut to \<open>hash_len\<close>; with no colon in the parameter the uid is
  the next four random bytes and the user key is the server key.
\<close>

theorem first_chunk_layout:
  assumes uk: "user_key l = None" and pf: "param_fits server"
  shows "\<exists>out g1 l1 r1.
      auth_aes128_sha1_pack_auth_data g server l data ext r = Some (out, g1, l1, r1)
      \<and> (let n = length data;
              rand_len = (if 400 < n then unat (xs_out r (xs_pos r) AND 0x1FF)
                          else unat (xs_out r (xs_pos r) AND 0x3FF));
              data_offset = rand_len + 31;
              out_size = data_offset + n + 4;
              r3 = snd (bump_connection_id g
                     (snd (rand_bytes rand_len (snd (xorshift128plus r)))));
              k = take ((length (iv server) + length (key server)) mod 256)
                    (iv server @ key server);
              E = filled 16 (ss_aes_128_cbc ext (auth_plain g1 ext out_size rand_len)
                               (auth_enc_key ext l1))
          in length out = out_size
             \<and> take n (drop data_offset out) = data
             \<and> length (uid l1) = 4
             \<and> take 24 (drop 7 out) = uid l1 @ E @ filled 4 (hmac l (uid l1 @ E) k)
             \<and> (length (iv server) + length (key server) < 256 \<longrightarrow> k = iv server @ key server)
             \<and> (\<forall>u ks. param server = Some (u @ 0x3A # ks) \<and> 0x3A \<notin> set u \<longrightarrow>
                   uid l1 = memintcopy_lt (word_of_int (strtol10 u))
                   \<and> ((\<forall>c \<in> set u. isdigit_c c) \<longrightarrow>
                        uid l1 = memintcopy_lt (of_nat (dec_value u)))
                   \<and> user_key l1 = Some (filled (hash_len l) (hash l ks)))
             \<and> ((\<forall>p. param server = Some p \<longrightarrow> 0x3A \<notin> set p) \<longrightarrow>
                   uid l1 = fst (rand_bytes 4 r3) \<and> user_key l1 = Some (key server)))"
proof -
  define n where "n = length data"
  define R where "R = auth_rand_len n r"
  define r3 where "r3 = snd (bump_connection_id g (snd (rand_bytes R (snd (xorshift128plus r)))))"
  define g1 where "g1 = fst (bump_connection_id g (snd (rand_bytes R (snd (xorshift128plus r)))))"
  define rnd where "rnd = fst (rand_bytes R (snd (xorshift128plus r)))"
  define k where "k = take ((length (iv server) + length (key server)) mod 256)
                        (iv server @ key server)"
  have Rn: "(if 400 < length data then unat (xs_out r (xs_pos r) AND 0x1FF)
             else unat (xs_out r (xs_pos r) AND 0x3FF)) = R"
    by (simp add: R_def n_def auth_rand_len_def)
  from resolve_user_key_Some[OF pf] obtain l1 r4
    where ru: "resolve_user_key server l r3 = Some (l1, r4)" by blast
  note res = resolved_user_key[OF uk pf ru]
  define E where "E = filled 16 (ss_aes_128_cbc ext (auth_plain g1 ext (R + 31 + n + 4) R)
                                   (auth_enc_key ext l1))"
  define b0 where "b0 = fst (rand_bytes 1 r4)"
  define h6 where "h6 = filled 6 (hmac l1 b0 k)"
  define h4 where "h4 = filled 4 (hmac l (uid l1 @ E) k)"
  define front where "front = b0 @ h6 @ ((uid l1 @ E) @ h4) @ rnd @ data"
  define t4 where "t4 = filled 4 (hmac l1 front (user_key_bytes l1))"
  have lens: "length b0 = 1" "length h6 = 6" "length h4 = 4" "length E = 16"
    "length rnd = R" "length t4 = 4" "length data = n"
    by (simp_all add: b0_def h6_def h4_def E_def rnd_def t4_def n_def)
  have "auth_aes128_sha1_pack_auth_data g server l data ext r
          = Some (front @ t4, g1, l1, snd (rand_bytes 1 r4))"
    using pack_auth_data_layout[OF ru[unfolded r3_def R_def n_def] res(2), of ext]
    by (simp add: Let_def n_def R_def g1_def rnd_def k_def E_def b0_def h6_def h4_def
          front_def t4_def res(1))
  moreover have "length (front @ t4) = R + 31 + n + 4"
    by (simp add: front_def lens res(2))
  moreover have "take n (drop (R + 31) (front @ t4)) = data"
    by (simp add: front_def lens res(2))
  moreover have "take 24 (drop 7 (front @ t4)) = uid l1 @ E @ h4"
    by (simp add: front_def lens res(2))
  moreover have "length (iv server) + length (key server) < 256 \<Longrightarrow> k = iv server @ key server"
    by (simp add: k_def)
  ultimately show ?thesis
    using res(2) res(3) res(4)
    unfolding Let_def Rn
    apply (intro exI[of _ "front @ t4"] exI[of _ g1] exI[of _ l1]
        exI[of _ "snd (rand_bytes 1 r4)"])
    apply (simp only: n_def[symmetric] r3_def[symmetric] k_def[symmetric] E_def[symmetric]
        h4_def[symmetric])
    apply blast
    done
qed

theorem first_chunk_layout_witness:
  "\<exists>out g1 l1 r1.
      auth_aes128_sha1_pack_auth_data sample_global sample_user_server sample_local [1]
        sample_ext sample_rand = Some (out, g1, l1, r1)
      \<and> length out = 36 \<and> take 1 (drop 31 out) = [1]
      \<and> uid l1 = [42, 0, 0, 0] \<and> user_key l1 = Some (replicate 16 134)"
proof -
  have a: "user_key sample_local = None"
    by (simp add: sample_local_def auth_aes128_md5_new_obfs_def auth_simple_local_data_init_def)
  have b: "param_fits sample_user_server" by code_simp
  have c: "param sample_user_server = Some (cstr ''42'' @ 0x3A # cstr ''secret'')" by code_simp
  have d: "0x3A \<notin> set (cstr ''42'')" by code_simp
  have e: "\<forall>c \<in> set (cstr ''42''). isdigit_c c" by code_simp
  have f: "memintcopy_lt (of_nat (dec_value (cstr ''42''))) = [42, 0, 0, 0]" by code_simp
  have h: "filled (hash_len sample_local) (hash sample_local (cstr ''secret''))
             = replicate 16 134" by code_simp
  have xs: "xs_out sample_rand (xs_pos sample_rand) = 0" by (simp add: sample_rand_def)
  from first_chunk_layout [OF a b, of sample_global "[1]" sample_ext sample_rand]
  obtain out g1 l1 r1
    where p: "auth_aes128_sha1_pack_auth_data sample_global sample_user_server sample_local [1]
                sample_ext sample_rand = Some (out, g1, l1, r1)"
      and len: "length out = 36 \<and> take 1 (drop 31 out) = [1]"
      and q: "\<forall>u ks. param sample_user_server = Some (u @ 0x3A # ks) \<and> 0x3A \<notin> set u \<longrightarrow>
                uid l1 = memintcopy_lt (word_of_int (strtol10 u))
                \<and> ((\<forall>c \<in> set u. isdigit_c c) \<longrightarrow> uid l1 = memintcopy_lt (of_nat (dec_value u)))
                \<and> user_key l1 = Some (filled (hash_len sample_local) (hash sample_local ks))"
    unfolding Let_def xs
    apply (elim exE conjE)
    subgoal premises prems for out g1 l1 r1
      by (rule prems(1)[of out g1 l1 r1]) (insert prems(2-), blast, simp, blast)
    done
  from q c d e have "uid l1 = memintcopy_lt (of_nat (dec_value (cstr ''42'')))
      \<and> user_key l1 = Some (filled (hash_len sample_local) (hash sample_local (cstr ''secret'')))"
    by blast
  with p len show ?thesis by (simp only: f h) blast
qed

text \<open>
  The claim as stated sends every parameter that is not of the form
  \<open>uid_decimal:key_str\<close> to the fall-back.  The code takes the first branch for every
  parameter with a colon: with the parameter \<^verbatim>\<open>abc:k\<close> and random bytes \<open>0x55\<close> the uid
  is \<open>strtol\<close> of \<^verbatim>\<open>abc\<close>, that is 0, not four random bytes, the user key is the hash of
  \<^verbatim>\<open>k\<close>, not the server key \<open>[3, 4, 5]\<close>, and the only random byte drawn is the first
  byte of the chunk.
\<close>

theorem named_param_counterexample:
  "map_option (\<lambda>(out, g1, l1, r1). (uid l1, user_key l1, rb_pos r1))
     (auth_aes128_sha1_pack_auth_data sample_global sample_named_server sample_local [1]
        sample_ext sample_rand55)
     = Some ([0, 0, 0, 0], Some (replicate 16 107), 1)
   \<and> fst (rand_bytes 4 sample_rand55) = [0x55, 0x55, 0x55, 0x55]
   \<and> key sample_named_server = [3, 4, 5]
   \<and> param sample_named_server = Some (cstr ''abc'' @ 0x3A # cstr ''k'')"
  by code_simp

end
